theory Spec2Isabelle
  imports Main "HOL-Library.AList"
begin

section \<open>The remote document source (services/notion\_reader.py)\<close>

text \<open>
  A block of the list returned by \<^verbatim>\<open>GET /v1/blocks/{id}/children\<close>. The reader looks at
  \<^verbatim>\<open>block['id']\<close>, \<^verbatim>\<open>block['type']\<close>, \<^verbatim>\<open>block['parent']['page_id']\<close>, the plain texts of
  \<^verbatim>\<open>block[type]['rich_text']\<close>, \<^verbatim>\<open>block['child_page']['title']\<close> and, for a block type it
  does not know, at \<^verbatim>\<open>str(block)\<close>.
\<close>

record block =
  b_id :: string
  b_type :: string
  b_parent_page_id :: string
  b_rich_text :: "string list"
  b_child_title :: string
  b_str :: string

text \<open>\<^verbatim>\<open>class NotionChildPage\<close> and \<^verbatim>\<open>class NotionPage\<close>.\<close>

record notion_child_page =
  cp_title :: string
  cp_page_id :: string

text \<open>
  A property of the page object, by the key the reader tests for, and the value the reader
  stores for it in \<^verbatim>\<open>content\<close>.
\<close>

datatype property =
    PTitle "string list"
  | PRichText "string list"
  | PUrl "string option"
  | PSelect "string option"
  | PMultiSelect "string list"
  | PDate "string option"
  | PPeople "string list"
  | PRelation "string list"
  | PCheckbox bool
  | PNumber "int option"
  | POther

datatype content_value =
    CList "string list"
  | CStr string
  | CNone
  | CBool bool
  | CNum int

record notion_page =
  page_id :: string
  content :: "string \<rightharpoonup> content_value"
  full_content :: string
  child_pages :: "notion_child_page list"

text \<open>
  The two HTTP responses: status code, body text, the body as
  \<^verbatim>\<open>json.dumps(response.json(), indent=2)\<close> renders it (\<open>None\<close> when \<^verbatim>\<open>response.json()\<close> raises
  \<^verbatim>\<open>ValueError\<close>), and the parsed payload the reader uses.
\<close>

record page_response =
  pr_status_code :: int
  pr_text :: string
  pr_json :: "string option"
  pr_properties :: "string \<rightharpoonup> property"

record blocks_response =
  br_status_code :: int
  br_text :: string
  br_json :: "string option"
  br_results :: "block list"

text \<open>\<^verbatim>\<open>sep.join(xs)\<close>\<close>

fun join :: "string \<Rightarrow> string list \<Rightarrow> string" where
  "join sep [] = []"
| "join sep [x] = x"
| "join sep (x # y # ys) = x @ sep @ join sep (y # ys)"

text \<open>The body of the loop of \<^verbatim>\<open>process_blocks\<close>: the line appended for one block.\<close>

definition block_line :: "block \<Rightarrow> string" where
  "block_line b =
     (let block_type = b_type b in
      if block_type = ''paragraph'' then join '' '' (b_rich_text b)
      else if block_type \<in> set [''heading_1'', ''heading_2'', ''heading_3''] then
        (let text = (case b_rich_text b of [] \<Rightarrow> '''' | t # _ \<Rightarrow> t) in
         replicate (of_char (last block_type) - 48) (CHR ''#'') @ '' '' @ text)
      else if block_type = ''bulleted_list_item'' then ''- '' @ join '' '' (b_rich_text b)
      else if block_type = ''numbered_list_item'' then ''1. '' @ join '' '' (b_rich_text b)
      else if block_type = ''child_page'' then
        (let title = b_child_title b; page_id = b_parent_page_id b in
         ''- ['' @ title @ '']('' @ page_id @ '')'')
      else b_str b)"

fun block_lines :: "block list \<Rightarrow> string list" where
  "block_lines [] = []"
| "block_lines (b # bs) = block_line b # block_lines bs"

definition process_blocks :: "block list \<Rightarrow> string" where
  "process_blocks blocks = join [CHR 0x0A] (block_lines blocks)"

fun get_child_pages :: "block list \<Rightarrow> notion_child_page list" where
  "get_child_pages [] = []"
| "get_child_pages (b # bs) =
     (if b_type b = ''child_page''
      then \<lparr>cp_title = b_child_title b, cp_page_id = b_id b\<rparr> # get_child_pages bs
      else get_child_pages bs)"

text \<open>The value stored in \<^verbatim>\<open>content[key]\<close> for a property; \<open>None\<close> when no branch matches.\<close>

fun property_content :: "property \<Rightarrow> content_value option" where
  "property_content (PTitle ts) = Some (CList ts)"
| "property_content (PRichText ts) = Some (CList ts)"
| "property_content (PUrl u) = Some (case u of None \<Rightarrow> CNone | Some s \<Rightarrow> CStr s)"
| "property_content (PSelect n) = Some (case n of None \<Rightarrow> CNone | Some s \<Rightarrow> CStr s)"
| "property_content (PMultiSelect ns) = Some (CList ns)"
| "property_content (PDate d) = Some (case d of None \<Rightarrow> CNone | Some s \<Rightarrow> CStr s)"
| "property_content (PPeople ns) = Some (CList ns)"
| "property_content (PRelation ids) = Some (CList ids)"
| "property_content (PCheckbox c) = Some (CBool c)"
| "property_content (PNumber n) = Some (case n of None \<Rightarrow> CNone | Some i \<Rightarrow> CNum i)"
| "property_content POther = None"

text \<open>
  \<^verbatim>\<open>title_list = content.get('title', ['Untitled'])\<close>,
  \<^verbatim>\<open>title = title_list[0] if title_list else 'Untitled'\<close>. Indexing a true boolean or a
  non-zero number raises.
\<close>

datatype error = FetchFailed int | TypeError | RecursionError

definition page_title :: "(string \<rightharpoonup> content_value) \<Rightarrow> error + string" where
  "page_title c =
     (case c ''title'' of
        None \<Rightarrow> Inr ''Untitled''
      | Some (CList ts) \<Rightarrow> Inr (case ts of [] \<Rightarrow> ''Untitled'' | t # _ \<Rightarrow> t)
      | Some (CStr s) \<Rightarrow> Inr (case s of [] \<Rightarrow> ''Untitled'' | ch # _ \<Rightarrow> [ch])
      | Some CNone \<Rightarrow> Inr ''Untitled''
      | Some (CBool b) \<Rightarrow> (if b then Inl TypeError else Inr ''Untitled'')
      | Some (CNum n) \<Rightarrow> (if n \<noteq> 0 then Inl TypeError else Inr ''Untitled''))"

section \<open>The corpus graph (networkx.DiGraph as the indexer uses it)\<close>

text \<open>
  The node dictionary maps an id to its \<^verbatim>\<open>title\<close> attribute (\<open>None\<close> for a node that
  \<^verbatim>\<open>add_edge\<close> created); the edges are kept in insertion order. \<^verbatim>\<open>add_node\<close> updates the
  attribute of a node that exists, \<^verbatim>\<open>add_edge\<close> creates missing end points and leaves an
  existing edge alone.
\<close>

record digraph =
  g_nodes :: "(string \<times> string option) list"
  g_edges :: "(string \<times> string) list"

definition empty_graph :: digraph where
  "empty_graph = \<lparr>g_nodes = [], g_edges = []\<rparr>"

definition add_node :: "string \<Rightarrow> string \<Rightarrow> digraph \<Rightarrow> digraph" where
  "add_node n title g = g\<lparr>g_nodes := AList.update n (Some title) (g_nodes g)\<rparr>"

definition ensure_node :: "string \<Rightarrow> digraph \<Rightarrow> digraph" where
  "ensure_node n g =
     (if map_of (g_nodes g) n = None then g\<lparr>g_nodes := g_nodes g @ [(n, None)]\<rparr> else g)"

definition add_edge :: "string \<Rightarrow> string \<Rightarrow> digraph \<Rightarrow> digraph" where
  "add_edge u v g =
     (let g1 = ensure_node v (ensure_node u g) in
      if (u, v) \<in> set (g_edges g1) then g1 else g1\<lparr>g_edges := g_edges g1 @ [(u, v)]\<rparr>)"

definition wf_graph :: "digraph \<Rightarrow> bool" where
  "wf_graph g \<longleftrightarrow> distinct (map fst (g_nodes g)) \<and> distinct (g_edges g)"

section \<open>The indexer (services/notion\_indexer.py)\<close>

text \<open>
  Every effect on the outside world is an event of the trace, in program order: the two
  HTTP requests, the lines the reader prints when a request fails (by their format string,
  with the status code or the body they hold), the calls of the vector store, the three
  file writes, and the warnings and errors logged (the info messages are left out).
\<close>

datatype printed =
    ErrorStatusCode int
  | FullErrorResponse string
  | ErrorResponseContent string
  | ErrorFetchingBlocks int
  | FullErrorResponseForBlocks string
  | ErrorResponseContentForBlocks string

datatype io_event =
    HttpGetPage string
  | HttpGetBlocks string
  | StoreDelete string
  | StoreAddTexts string string string
  | WriteHashStore
  | WriteProcessedPages
  | WriteKnowledgeGraph
  | LogNoContent string
  | LogDeleteError string
  | LogChunkError string
  | Print printed

text \<open>
  The indexer object (\<^verbatim>\<open>self\<close>) together with the world it acts on: the documents of the
  vector store as (text, page id, title), the three pickle files (\<open>None\<close>: no file) and the
  trace.
\<close>

record indexer =
  hash_store :: "string \<rightharpoonup> string"
  processed_pages :: "string set"
  knowledge_graph :: digraph
  total_pages_found :: int
  pages_processed :: int
  vector_store :: "(string \<times> string \<times> string) list"
  hash_file :: "(string \<rightharpoonup> string) option"
  processed_file :: "string set option"
  graph_file :: "digraph option"
  trace :: "io_event list"

text \<open>
  What the indexer does not define itself: the responses of the remote source to the two
  requests (the same for the whole run), \<^verbatim>\<open>hashlib.md5(..).hexdigest()\<close>, the text splitter,
  which calls of the vector store raise (given the trace so far), and \<^verbatim>\<open>ROOT_PAGE_ID\<close>.
\<close>

record env =
  pages_endpoint :: "string \<Rightarrow> page_response"
  blocks_endpoint :: "string \<Rightarrow> blocks_response"
  md5_hexdigest :: "string \<Rightarrow> string"
  split_text :: "string \<Rightarrow> string list"
  store_fails :: "io_event list \<Rightarrow> io_event \<Rightarrow> bool"
  root_page_id :: string

definition emit :: "io_event \<Rightarrow> indexer \<Rightarrow> indexer" where
  "emit e s = s\<lparr>trace := trace s @ [e]\<rparr>"

definition get_page_blocks :: "env \<Rightarrow> indexer \<Rightarrow> string \<Rightarrow> block list \<times> indexer" where
  "get_page_blocks env s pid =
     (let response = blocks_endpoint env pid; s1 = emit (HttpGetBlocks pid) s in
      if br_status_code response = 200 then (br_results response, s1)
      else
        (let s2 = emit (Print (ErrorFetchingBlocks (br_status_code response))) s1;
             s3 = (case br_json response of
                     Some error_json \<Rightarrow> emit (Print (FullErrorResponseForBlocks error_json)) s2
                   | None \<Rightarrow> emit (Print (ErrorResponseContentForBlocks (br_text response))) s2)
         in ([], s3)))"

definition get_page_content ::
  "env \<Rightarrow> indexer \<Rightarrow> string \<Rightarrow> (error \<times> indexer) + (notion_page \<times> indexer)" where
  "get_page_content env s pid =
     (let response = pages_endpoint env pid; s1 = emit (HttpGetPage pid) s in
      if pr_status_code response = 200 then
        (let c = (\<lambda>key. case pr_properties response key of
                          None \<Rightarrow> None | Some v \<Rightarrow> property_content v) in
         case get_page_blocks env s1 pid of
           (blocks, s2) \<Rightarrow>
             Inr (\<lparr>page_id = pid, content = c, full_content = process_blocks blocks,
                   child_pages = get_child_pages blocks\<rparr>, s2))
      else
        (let s2 = emit (Print (ErrorStatusCode (pr_status_code response))) s1;
             s3 = (case pr_json response of
                     Some error_json \<Rightarrow> emit (Print (FullErrorResponse error_json)) s2
                   | None \<Rightarrow> emit (Print (ErrorResponseContent (pr_text response))) s2)
         in Inl (FetchFailed (pr_status_code response), s3)))"

definition save_hash_store :: "indexer \<Rightarrow> indexer" where
  "save_hash_store s = emit WriteHashStore (s\<lparr>hash_file := Some (hash_store s)\<rparr>)"


definition save_processed_pages :: "indexer \<Rightarrow> indexer" where
  "save_processed_pages s =
     emit WriteProcessedPages (s\<lparr>processed_file := Some (processed_pages s)\<rparr>)"

definition load_processed_pages :: "indexer \<Rightarrow> indexer" where
  "load_processed_pages s =
     (case processed_file s of None \<Rightarrow> s | Some p \<Rightarrow> s\<lparr>processed_pages := p\<rparr>)"

text \<open>
  \<^verbatim>\<open>vector_store._collection.delete(where={"page_id": page_id})\<close> inside its
  \<^verbatim>\<open>try\<close>/\<^verbatim>\<open>except\<close>: a call that raises changes nothing and is logged.
\<close>

definition delete_page :: "env \<Rightarrow> indexer \<Rightarrow> string \<Rightarrow> indexer" where
  "delete_page env s pid =
     (let s1 = emit (StoreDelete pid) s in
      if store_fails env (trace s) (StoreDelete pid) then emit (LogDeleteError pid) s1
      else s1\<lparr>vector_store := filter (\<lambda>d. fst (snd d) \<noteq> pid) (vector_store s1)\<rparr>)"

text \<open>
  \<^verbatim>\<open>vector_store.add_texts([chunk], [{"page_id": page_id, "title": title}])\<close> as one unit
  of work; the boolean is the outcome its future holds.
\<close>

definition add_texts :: "env \<Rightarrow> indexer \<Rightarrow> string \<Rightarrow> string \<Rightarrow> string \<Rightarrow> bool \<times> indexer" where
  "add_texts env s chunk pid title =
     (let s1 = emit (StoreAddTexts chunk pid title) s in
      if store_fails env (trace s) (StoreAddTexts chunk pid title) then (False, s1)
      else (True, s1\<lparr>vector_store := vector_store s1 @ [(chunk, pid, title)]\<rparr>))"

text \<open>
  The first loop submits every chunk; the second goes through the futures and logs the
  ones that raised. The units of work are taken in the order of submission.
\<close>

fun submit_chunks ::
  "env \<Rightarrow> indexer \<Rightarrow> string \<Rightarrow> string \<Rightarrow> string list \<Rightarrow> bool list \<times> indexer" where
  "submit_chunks env s pid title [] = ([], s)"
| "submit_chunks env s pid title (chunk # chunks) =
     (case add_texts env s chunk pid title of
        (ok, s1) \<Rightarrow>
          (case submit_chunks env s1 pid title chunks of
             (oks, s2) \<Rightarrow> (ok # oks, s2)))"

fun collect_results :: "indexer \<Rightarrow> string \<Rightarrow> bool list \<Rightarrow> indexer" where
  "collect_results s pid [] = s"
| "collect_results s pid (ok # oks) =
     collect_results (if ok then s else emit (LogChunkError pid) s) pid oks"

text \<open>The branch \<^verbatim>\<open>elif is_new_page or is_page_modified\<close> of \<^verbatim>\<open>process_page\<close>.\<close>

definition index_page ::
  "env \<Rightarrow> indexer \<Rightarrow> string \<Rightarrow> string \<Rightarrow> string \<Rightarrow> string \<Rightarrow> indexer" where
  "index_page env s pid title text current_hash =
     (let chunks = split_text env text in
      if chunks = [] then emit (LogNoContent pid) s
      else
        (let s1 = delete_page env s pid in
         case submit_chunks env s1 pid title chunks of
           (futures, s2) \<Rightarrow>
             (let s3 = collect_results s2 pid futures;
                  s4 = save_hash_store (s3\<lparr>hash_store := (hash_store s3)(pid \<mapsto> current_hash)\<rparr>);
                  s5 = save_processed_pages
                         (s4\<lparr>processed_pages := insert pid (processed_pages s4)\<rparr>)
              in s5)))"

text \<open>The three tests of \<^verbatim>\<open>process_page\<close>.\<close>

definition is_new_page :: "indexer \<Rightarrow> string \<Rightarrow> bool" where
  "is_new_page s pid \<longleftrightarrow> hash_store s pid = None"

definition is_page_modified :: "indexer \<Rightarrow> string \<Rightarrow> string \<Rightarrow> bool" where
  "is_page_modified s pid current_hash \<longleftrightarrow> Some current_hash \<noteq> hash_store s pid"

definition is_already_processed :: "indexer \<Rightarrow> string \<Rightarrow> bool" where
  "is_already_processed s pid \<longleftrightarrow> pid \<in> processed_pages s"

text \<open>
  \<^verbatim>\<open>process_page\<close> up to the loop over the child pages: fetch, decide, index, count, update
  the graph. \<^verbatim>\<open>if parent_id:\<close> is false for \<^verbatim>\<open>None\<close> and for the empty string.
\<close>

definition visit_page ::
  "env \<Rightarrow> indexer \<Rightarrow> string \<Rightarrow> string option \<Rightarrow> (error \<times> indexer) + (notion_page \<times> indexer)"
  where
  "visit_page env s pid parent_id =
     (case get_page_content env s pid of
        Inl e \<Rightarrow> Inl e
      | Inr (notion_page, s1) \<Rightarrow>
          (let text = full_content notion_page;
               current_hash = md5_hexdigest env text;
               s2 = s1\<lparr>total_pages_found :=
                         total_pages_found s1 + int (length (child_pages notion_page))\<rparr>
           in case page_title (content notion_page) of
                Inl e \<Rightarrow> Inl (e, s2)
              | Inr title \<Rightarrow>
                  (let s3 = (if is_already_processed s2 pid then s2
                             else if is_new_page s2 pid \<or> is_page_modified s2 pid current_hash
                             then index_page env s2 pid title text current_hash
                             else s2);
                       s4 = s3\<lparr>pages_processed := pages_processed s3 + 1\<rparr>;
                       s5 = s4\<lparr>knowledge_graph := add_node pid title (knowledge_graph s4)\<rparr>;
                       s6 = (case parent_id of
                               None \<Rightarrow> s5
                             | Some p \<Rightarrow>
                                 if p \<noteq> '''' then
                                   s5\<lparr>knowledge_graph := add_edge p pid (knowledge_graph s5)\<rparr>
                                 else s5)
                   in Inr (notion_page, s6))))"

text \<open>
  The recursion: \<^verbatim>\<open>process_page\<close> calls itself for every child page in turn. The first
  argument is the depth the interpreter still allows; at depth 0 the call raises
  \<^verbatim>\<open>RecursionError\<close>. An exception ends the whole traversal in the state it was raised in.
\<close>

fun process_page ::
  "nat \<Rightarrow> env \<Rightarrow> indexer \<Rightarrow> string \<Rightarrow> string option \<Rightarrow> (error \<times> indexer) + indexer"
and process_children ::
  "nat \<Rightarrow> env \<Rightarrow> indexer \<Rightarrow> string \<Rightarrow> notion_child_page list \<Rightarrow> (error \<times> indexer) + indexer"
where
  "process_page 0 env s pid parent_id = Inl (RecursionError, s)"
| "process_page (Suc depth) env s pid parent_id =
     (case visit_page env s pid parent_id of
        Inl e \<Rightarrow> Inl e
      | Inr (notion_page, s1) \<Rightarrow> process_children depth env s1 pid (child_pages notion_page))"
| "process_children depth env s pid [] = Inr s"
| "process_children depth env s pid (child_page # rest) =
     (case process_page depth env s (cp_page_id child_page) (Some pid) of
        Inl e \<Rightarrow> Inl e
      | Inr s1 \<Rightarrow> process_children depth env s1 pid rest)"


text \<open>
  \<^verbatim>\<open>__init__\<close>: the hash store and the graph are read from their files when these exist;
  the set of processed pages starts empty and is read by \<^verbatim>\<open>run\<close>.
\<close>

definition init ::
  "(string \<times> string \<times> string) list \<Rightarrow> (string \<rightharpoonup> string) option \<Rightarrow> string set option \<Rightarrow>
   digraph option \<Rightarrow> indexer" where
  "init vs hf pf gf =
     \<lparr>hash_store = (case hf of None \<Rightarrow> Map.empty | Some m \<Rightarrow> m),
      processed_pages = {},
      knowledge_graph = (case gf of None \<Rightarrow> empty_graph | Some g \<Rightarrow> g),
      total_pages_found = 0,
      pages_processed = 0,
      vector_store = vs,
      hash_file = hf,
      processed_file = pf,
      graph_file = gf,
      trace = []\<rparr>"

section \<open>What a run can be observed to do\<close>

text \<open>The state a call ends in, whether it returned or raised.\<close>

definition state_of :: "(error \<times> indexer) + indexer \<Rightarrow> indexer" where
  "state_of r = (case r of Inl (e, s) \<Rightarrow> s | Inr s \<Rightarrow> s)"

text \<open>
  The ids of the page requests of a trace. \<^verbatim>\<open>process_page\<close> starts with this request, so
  these are the ids \<^verbatim>\<open>process_page\<close> was invoked for, in order.
\<close>

fun fetched_pages :: "io_event list \<Rightarrow> string list" where
  "fetched_pages [] = []"
| "fetched_pages (HttpGetPage pid # es) = pid # fetched_pages es"
| "fetched_pages (e # es) = fetched_pages es"

text \<open>The calls of the vector store in a trace: deletions and additions.\<close>

fun is_store_call :: "io_event \<Rightarrow> bool" where
  "is_store_call (StoreDelete pid) = True"
| "is_store_call (StoreAddTexts chunk pid title) = True"
| "is_store_call e = False"

definition store_calls :: "io_event list \<Rightarrow> io_event list" where
  "store_calls es = filter is_store_call es"

text \<open>The events a call added to the trace of the state it started in.\<close>

definition events_since :: "indexer \<Rightarrow> indexer \<Rightarrow> io_event list" where
  "events_since s s' = drop (length (trace s)) (trace s')"

text \<open>
  What the remote source holds for an id, as \<^verbatim>\<open>get_page_content\<close> reads it: the events of
  a failed page request and of the two requests of a fetch that returns, the blocks
  (none when the request for them fails), the page object built from a successful
  response, its text, fingerprint, chunks and title.
\<close>

definition page_error_events :: "env \<Rightarrow> string \<Rightarrow> io_event list" where
  "page_error_events env pid =
     [Print (ErrorStatusCode (pr_status_code (pages_endpoint env pid))),
      Print (case pr_json (pages_endpoint env pid) of
               Some error_json \<Rightarrow> FullErrorResponse error_json
             | None \<Rightarrow> ErrorResponseContent (pr_text (pages_endpoint env pid)))]"

definition blocks_error_events :: "env \<Rightarrow> string \<Rightarrow> io_event list" where
  "blocks_error_events env pid =
     (if br_status_code (blocks_endpoint env pid) = 200 then []
      else [Print (ErrorFetchingBlocks (br_status_code (blocks_endpoint env pid))),
            Print (case br_json (blocks_endpoint env pid) of
                     Some error_json \<Rightarrow> FullErrorResponseForBlocks error_json
                   | None \<Rightarrow> ErrorResponseContentForBlocks (br_text (blocks_endpoint env pid)))])"

definition fetch_events :: "env \<Rightarrow> string \<Rightarrow> io_event list" where
  "fetch_events env pid = [HttpGetPage pid, HttpGetBlocks pid] @ blocks_error_events env pid"

definition page_blocks :: "env \<Rightarrow> string \<Rightarrow> block list" where
  "page_blocks env pid =
     (if br_status_code (blocks_endpoint env pid) = 200
      then br_results (blocks_endpoint env pid) else [])"

definition fetched_page :: "env \<Rightarrow> string \<Rightarrow> notion_page" where
  "fetched_page env pid =
     \<lparr>page_id = pid,
      content = (\<lambda>key. case pr_properties (pages_endpoint env pid) key of
                         None \<Rightarrow> None | Some v \<Rightarrow> property_content v),
      full_content = process_blocks (page_blocks env pid),
      child_pages = get_child_pages (page_blocks env pid)\<rparr>"

definition page_hash :: "env \<Rightarrow> string \<Rightarrow> string" where
  "page_hash env pid = md5_hexdigest env (full_content (fetched_page env pid))"

definition page_chunks :: "env \<Rightarrow> string \<Rightarrow> string list" where
  "page_chunks env pid = split_text env (full_content (fetched_page env pid))"

definition visit_ok :: "env \<Rightarrow> string \<Rightarrow> bool" where
  "visit_ok env pid \<longleftrightarrow>
     pr_status_code (pages_endpoint env pid) = 200 \<and>
     \<not> isl (page_title (content (fetched_page env pid)))"

definition title_of :: "env \<Rightarrow> string \<Rightarrow> string" where
  "title_of env pid = projr (page_title (content (fetched_page env pid)))"

text \<open>
  The test of \<^verbatim>\<open>process_page\<close> that leads into the indexing branch, and the case in which
  that branch reaches the vector store.
\<close>

definition wants_indexing :: "env \<Rightarrow> indexer \<Rightarrow> string \<Rightarrow> bool" where
  "wants_indexing env s pid \<longleftrightarrow>
     \<not> is_already_processed s pid \<and>
     (is_new_page s pid \<or> is_page_modified s pid (page_hash env pid))"

definition embeds :: "env \<Rightarrow> indexer \<Rightarrow> string \<Rightarrow> bool" where
  "embeds env s pid \<longleftrightarrow> wants_indexing env s pid \<and> page_chunks env pid \<noteq> []"



text \<open>
  A node a run leaves alone: already processed, stored with the fingerprint of its present
  text, or without chunks. The graph holds a visit when the node has its title and, below a
  parent, the edge.
\<close>

definition settled :: "env \<Rightarrow> indexer \<Rightarrow> string \<Rightarrow> bool" where
  "settled env s pid \<longleftrightarrow>
     pid \<in> processed_pages s \<or> hash_store s pid = Some (page_hash env pid) \<or>
     page_chunks env pid = []"

definition graph_holds :: "env \<Rightarrow> digraph \<Rightarrow> string \<Rightarrow> string option \<Rightarrow> bool" where
  "graph_holds env g pid parent_id \<longleftrightarrow>
     map_of (g_nodes g) pid = Some (Some (title_of env pid)) \<and>
     (case parent_id of
        None \<Rightarrow> True
      | Some p \<Rightarrow> p = '''' \<or> (map_of (g_nodes g) p \<noteq> None \<and> (p, pid) \<in> set (g_edges g)))"

text \<open>
  The entries of a node are durable: in memory and in both files.
\<close>

definition persisted :: "indexer \<Rightarrow> string \<Rightarrow> string \<Rightarrow> bool" where
  "persisted s pid h \<longleftrightarrow>
     hash_store s pid = Some h \<and> pid \<in> processed_pages s \<and>
     (case hash_file s of None \<Rightarrow> False | Some m \<Rightarrow> m pid = Some h) \<and>
     (case processed_file s of None \<Rightarrow> False | Some p \<Rightarrow> pid \<in> p)"

section \<open>Small corpora\<close>

text \<open>
  Pages that answer 200 with their id as title; text is hashed by the identity and split
  into at most one chunk. The blocks of each page and the failures of the vector store are
  given.
\<close>

definition child_block :: "string \<Rightarrow> string \<Rightarrow> string \<Rightarrow> block" where
  "child_block bid parent title =
     \<lparr>b_id = bid, b_type = ''child_page'', b_parent_page_id = parent, b_rich_text = [],
      b_child_title = title, b_str = ''''\<rparr>"

definition para_block :: "string \<Rightarrow> string \<Rightarrow> string \<Rightarrow> block" where
  "para_block bid parent line =
     \<lparr>b_id = bid, b_type = ''paragraph'', b_parent_page_id = parent, b_rich_text = [line],
      b_child_title = '''', b_str = ''''\<rparr>"

definition corpus_env ::
  "(string \<Rightarrow> block list) \<Rightarrow> (string \<Rightarrow> int) \<Rightarrow> (io_event list \<Rightarrow> io_event \<Rightarrow> bool) \<Rightarrow> env" where
  "corpus_env blocks blocks_status fails =
     \<lparr>pages_endpoint = (\<lambda>pid. \<lparr>pr_status_code = 200, pr_text = '''', pr_json = None,
                                pr_properties = [''title'' \<mapsto> PTitle [pid]]\<rparr>),
      blocks_endpoint = (\<lambda>pid. \<lparr>br_status_code = blocks_status pid, br_text = ''error'',
                                 br_json = None, br_results = blocks pid\<rparr>),
      md5_hexdigest = (\<lambda>t. t),
      split_text = (\<lambda>t. if t = [] then [] else [t]),
      store_fails = fails,
      root_page_id = ''root''\<rparr>"

text \<open>A root with the children A (one paragraph) and B (no blocks).\<close>

definition family_blocks :: "string \<Rightarrow> block list" where
  "family_blocks pid =
     (if pid = ''root'' then [child_block ''A'' ''root'' ''A'', child_block ''B'' ''root'' ''B'']
      else if pid = ''A'' then [para_block ''a1'' ''A'' ''alpha'']
      else [])"




section \<open>The state a visit ends in\<close>

text \<open>
  The effects of one visit written out as a function of the state it starts in and of what
  the remote source and the vector store answer: which submissions succeed, which documents
  the store holds afterwards, the events of the indexing branch, the graph, and the state
  as a whole. The lemmas below show that \<^verbatim>\<open>process_page\<close> computes exactly this.
\<close>

fun chunk_outcomes :: "env \<Rightarrow> io_event list \<Rightarrow> string \<Rightarrow> string \<Rightarrow> string list \<Rightarrow> bool list" where
  "chunk_outcomes env tr pid title [] = []"
| "chunk_outcomes env tr pid title (c # cs) =
     (\<not> store_fails env tr (StoreAddTexts c pid title))
       # chunk_outcomes env (tr @ [StoreAddTexts c pid title]) pid title cs"

definition stored_chunks ::
  "env \<Rightarrow> io_event list \<Rightarrow> string \<Rightarrow> string \<Rightarrow> string list \<Rightarrow> (string \<times> string \<times> string) list"
  where
  "stored_chunks env tr pid title cs =
     map (\<lambda>c. (c, pid, title)) (map fst (filter snd (zip cs (chunk_outcomes env tr pid title cs))))"

definition delete_events :: "env \<Rightarrow> io_event list \<Rightarrow> string \<Rightarrow> io_event list" where
  "delete_events env tr pid =
     StoreDelete pid # (if store_fails env tr (StoreDelete pid) then [LogDeleteError pid] else [])"

definition embed_events ::
  "env \<Rightarrow> io_event list \<Rightarrow> string \<Rightarrow> string \<Rightarrow> string list \<Rightarrow> io_event list" where
  "embed_events env tr pid title cs =
     delete_events env tr pid @ map (\<lambda>c. StoreAddTexts c pid title) cs @
     replicate (length (filter Not (chunk_outcomes env (tr @ delete_events env tr pid) pid title cs)))
       (LogChunkError pid) @
     [WriteHashStore, WriteProcessedPages]"

definition embed_store ::
  "env \<Rightarrow> io_event list \<Rightarrow> (string \<times> string \<times> string) list \<Rightarrow> string \<Rightarrow> string \<Rightarrow> string list \<Rightarrow>
   (string \<times> string \<times> string) list" where
  "embed_store env tr vs pid title cs =
     (if store_fails env tr (StoreDelete pid) then vs else filter (\<lambda>d. fst (snd d) \<noteq> pid) vs) @
     stored_chunks env (tr @ delete_events env tr pid) pid title cs"

definition graph_after :: "digraph \<Rightarrow> string \<Rightarrow> string \<Rightarrow> string option \<Rightarrow> digraph" where
  "graph_after g pid title parent_id =
     (case parent_id of
        None \<Rightarrow> add_node pid title g
      | Some p \<Rightarrow> if p \<noteq> '''' then add_edge p pid (add_node pid title g) else add_node pid title g)"

definition visited :: "env \<Rightarrow> indexer \<Rightarrow> string \<Rightarrow> string option \<Rightarrow> indexer" where
  "visited env s pid parent_id =
     (let tr = trace s @ fetch_events env pid;
          title = title_of env pid;
          cs = page_chunks env pid;
          s0 = s\<lparr>knowledge_graph := graph_after (knowledge_graph s) pid title parent_id,
                 total_pages_found :=
                   total_pages_found s + int (length (child_pages (fetched_page env pid))),
                 pages_processed := pages_processed s + 1\<rparr>
      in if embeds env s pid then
           s0\<lparr>hash_store := (hash_store s)(pid \<mapsto> page_hash env pid),
              processed_pages := insert pid (processed_pages s),
              vector_store := embed_store env tr (vector_store s) pid title cs,
              hash_file := Some ((hash_store s)(pid \<mapsto> page_hash env pid)),
              processed_file := Some (insert pid (processed_pages s)),
              trace := tr @ embed_events env tr pid title cs\<rparr>
         else s0\<lparr>trace := tr @ (if wants_indexing env s pid then [LogNoContent pid] else [])\<rparr>)"

definition visit_events :: "env \<Rightarrow> indexer \<Rightarrow> string \<Rightarrow> io_event list" where
  "visit_events env s pid =
     fetch_events env pid @
     (if embeds env s pid then
        embed_events env (trace s @ fetch_events env pid) pid (title_of env pid)
          (page_chunks env pid)
      else if wants_indexing env s pid then [LogNoContent pid] else [])"


section \<open>Example runs\<close>

text \<open>
  The corpora above served without failures, and an indexer that starts without files.
\<close>

definition family_env :: env where
  "family_env = corpus_env family_blocks (\<lambda>_. 200) (\<lambda>_ _. False)"



definition fresh :: indexer where
  "fresh = init [] None None None"



text \<open>A single page without blocks.\<close>

definition empty_env :: env where
  "empty_env = corpus_env (\<lambda>_. []) (\<lambda>_. 200) (\<lambda>_ _. False)"

text \<open>
  The family with a vector store that refuses every deletion, and with a splitter that cuts
  a text into two chunks while the store refuses the first chunk of the root and of A.
\<close>

definition no_delete_env :: env where
  "no_delete_env = corpus_env family_blocks (\<lambda>_. 200) (\<lambda>_ e. e = StoreDelete ''A'')"

definition two_chunk_env :: env where
  "two_chunk_env =
     (corpus_env family_blocks (\<lambda>_. 200)
        (\<lambda>_ e. e = StoreAddTexts ''- '' ''root'' ''root'' \<or> e = StoreAddTexts ''al'' ''A'' ''A''))
       \<lparr>split_text := (\<lambda>t. if t = [] then [] else [take 2 t, drop 2 t])\<rparr>"

text \<open>
  An indexer that starts from the files of an earlier run in which A was indexed with
  another text, after \<^verbatim>\<open>run\<close> has read the set of processed pages.
\<close>

definition stale_state :: indexer where
  "stale_state =
     load_processed_pages (init [] (Some [''A'' \<mapsto> ''old'']) (Some {''A''}) None)"




section \<open>One visit, step by step\<close>

lemma get_page_content_eq:
  "get_page_content env s pid =
     (if pr_status_code (pages_endpoint env pid) = 200
      then Inr (fetched_page env pid, s\<lparr>trace := trace s @ fetch_events env pid\<rparr>)
      else Inl (FetchFailed (pr_status_code (pages_endpoint env pid)),
                s\<lparr>trace := trace s @ HttpGetPage pid # page_error_events env pid\<rparr>))"
  by (simp add: get_page_content_def get_page_blocks_def fetched_page_def page_blocks_def
        fetch_events_def blocks_error_events_def page_error_events_def emit_def Let_def
        split: option.splits)

lemma delete_page_eq:
  "delete_page env s pid =
     s\<lparr>vector_store := (if store_fails env (trace s) (StoreDelete pid) then vector_store s
                         else filter (\<lambda>d. fst (snd d) \<noteq> pid) (vector_store s)),
       trace := trace s @ delete_events env (trace s) pid\<rparr>"
  by (simp add: delete_page_def delete_events_def emit_def Let_def)

lemma submit_chunks_eq:
  "submit_chunks env s pid title cs =
     (chunk_outcomes env (trace s) pid title cs,
      s\<lparr>vector_store := vector_store s @ stored_chunks env (trace s) pid title cs,
        trace := trace s @ map (\<lambda>c. StoreAddTexts c pid title) cs\<rparr>)"
  by (induction cs arbitrary: s)
     (simp_all add: add_texts_def emit_def Let_def stored_chunks_def)

lemma collect_results_eq:
  "collect_results s pid oks =
     s\<lparr>trace := trace s @ replicate (length (filter Not oks)) (LogChunkError pid)\<rparr>"
  by (induction oks arbitrary: s) (simp_all add: emit_def replicate_app_Cons_same)

lemma index_page_eq:
  "index_page env s pid title text h =
     (if split_text env text = [] then s\<lparr>trace := trace s @ [LogNoContent pid]\<rparr>
      else s\<lparr>hash_store := (hash_store s)(pid \<mapsto> h),
             processed_pages := insert pid (processed_pages s),
             vector_store := embed_store env (trace s) (vector_store s) pid title (split_text env text),
             hash_file := Some ((hash_store s)(pid \<mapsto> h)),
             processed_file := Some (insert pid (processed_pages s)),
             trace := trace s @ embed_events env (trace s) pid title (split_text env text)\<rparr>)"
  by (simp add: index_page_def delete_page_eq submit_chunks_eq collect_results_eq
        save_hash_store_def save_processed_pages_def emit_def Let_def embed_store_def
        embed_events_def)

lemma visit_page_eq:
  "visit_page env s pid parent_id =
     (if pr_status_code (pages_endpoint env pid) \<noteq> 200
      then Inl (FetchFailed (pr_status_code (pages_endpoint env pid)),
                s\<lparr>trace := trace s @ HttpGetPage pid # page_error_events env pid\<rparr>)
      else if isl (page_title (content (fetched_page env pid)))
      then Inl (projl (page_title (content (fetched_page env pid))),
                s\<lparr>total_pages_found :=
                     total_pages_found s + int (length (child_pages (fetched_page env pid))),
                  trace := trace s @ fetch_events env pid\<rparr>)
      else Inr (fetched_page env pid, visited env s pid parent_id))"
  by (cases "page_title (content (fetched_page env pid))")
     (auto simp add: visit_page_def get_page_content_eq index_page_eq visited_def Let_def
        is_already_processed_def is_new_page_def is_page_modified_def wants_indexing_def
        embeds_def page_chunks_def page_hash_def title_of_def graph_after_def
        split: option.splits)


subsection \<open>The fields of the state after a visit\<close>

lemma visited_fields:
  "hash_store (visited env s pid parent_id) =
     (if embeds env s pid then (hash_store s)(pid \<mapsto> page_hash env pid) else hash_store s)"
  "processed_pages (visited env s pid parent_id) =
     (if embeds env s pid then insert pid (processed_pages s) else processed_pages s)"
  "knowledge_graph (visited env s pid parent_id) =
     graph_after (knowledge_graph s) pid (title_of env pid) parent_id"
  "total_pages_found (visited env s pid parent_id) =
     total_pages_found s + int (length (child_pages (fetched_page env pid)))"
  "pages_processed (visited env s pid parent_id) = pages_processed s + 1"
  "vector_store (visited env s pid parent_id) =
     (if embeds env s pid
      then embed_store env (trace s @ fetch_events env pid) (vector_store s) pid
             (title_of env pid) (page_chunks env pid)
      else vector_store s)"
  "hash_file (visited env s pid parent_id) =
     (if embeds env s pid then Some ((hash_store s)(pid \<mapsto> page_hash env pid)) else hash_file s)"
  "processed_file (visited env s pid parent_id) =
     (if embeds env s pid then Some (insert pid (processed_pages s)) else processed_file s)"
  "graph_file (visited env s pid parent_id) = graph_file s"
  "trace (visited env s pid parent_id) = trace s @ visit_events env s pid"
  by (simp_all add: visited_def visit_events_def Let_def)


lemma events_since_visited: "events_since s (visited env s pid parent_id) = visit_events env s pid"
  by (simp add: events_since_def visited_fields)

lemma process_page_Suc:
  "visit_ok env pid \<Longrightarrow>
   process_page (Suc depth) env s pid parent_id =
     process_children depth env (visited env s pid parent_id) pid (child_pages (fetched_page env pid))"
  by (simp add: visit_page_eq visit_ok_def)

lemma visit_page_ok:
  "visit_ok env pid \<Longrightarrow>
   visit_page env s pid parent_id = Inr (fetched_page env pid, visited env s pid parent_id)"
  by (simp add: visit_page_eq visit_ok_def)

subsection \<open>The example corpora\<close>

lemma corpus_env_fields:
  "pages_endpoint (corpus_env blocks st fails) pid =
     \<lparr>pr_status_code = 200, pr_text = '''', pr_json = None, pr_properties = [''title'' \<mapsto> PTitle [pid]]\<rparr>"
  "blocks_endpoint (corpus_env blocks st fails) pid =
     \<lparr>br_status_code = st pid, br_text = ''error'', br_json = None, br_results = blocks pid\<rparr>"
  "md5_hexdigest (corpus_env blocks st fails) = (\<lambda>t. t)"
  "split_text (corpus_env blocks st fails) = (\<lambda>t. if t = [] then [] else [t])"
  "store_fails (corpus_env blocks st fails) = fails"
  "root_page_id (corpus_env blocks st fails) = ''root''"
  by (simp_all add: corpus_env_def)

lemma corpus_visit_ok: "visit_ok (corpus_env blocks st fails) pid"
  by (simp add: visit_ok_def corpus_env_fields fetched_page_def page_title_def)

lemma corpus_title_of: "title_of (corpus_env blocks st fails) pid = pid"
  by (simp add: title_of_def corpus_env_fields fetched_page_def page_title_def)

lemma corpus_fetch_events:
  "st pid = 200 \<Longrightarrow>
   fetch_events (corpus_env blocks st fails) pid = [HttpGetPage pid, HttpGetBlocks pid]"
  by (simp add: fetch_events_def blocks_error_events_def corpus_env_fields)

lemma corpus_page_blocks:
  "page_blocks (corpus_env blocks st fails) pid = (if st pid = 200 then blocks pid else [])"
  by (simp add: page_blocks_def corpus_env_fields)



subsection \<open>Store calls and durable entries\<close>

lemma embedsI:
  "\<not> is_already_processed s pid \<Longrightarrow>
   is_new_page s pid \<or> is_page_modified s pid (page_hash env pid) \<Longrightarrow>
   page_chunks env pid \<noteq> [] \<Longrightarrow> embeds env s pid"
  by (simp add: embeds_def wants_indexing_def)

lemma store_calls_append: "store_calls (xs @ ys) = store_calls xs @ store_calls ys"
  by (simp add: store_calls_def)

lemma store_calls_simps:
  "store_calls [] = []"
  "store_calls (e # es) = (if is_store_call e then e # store_calls es else store_calls es)"
  by (simp_all add: store_calls_def)

lemma store_calls_fetch_events: "store_calls (fetch_events env pid) = []"
  by (simp add: fetch_events_def blocks_error_events_def store_calls_simps)

lemma store_calls_replicate_log: "store_calls (replicate k (LogChunkError pid)) = []"
  by (simp add: store_calls_def)

lemma store_calls_adds:
  "store_calls (map (\<lambda>c. StoreAddTexts c pid title) cs) = map (\<lambda>c. StoreAddTexts c pid title) cs"
  by (induction cs) (simp_all add: store_calls_def)

lemma store_calls_embed_events:
  "store_calls (embed_events env tr pid title cs) =
     StoreDelete pid # map (\<lambda>c. StoreAddTexts c pid title) cs"
  by (simp add: embed_events_def delete_events_def store_calls_append store_calls_adds
      store_calls_replicate_log store_calls_simps)

lemma store_calls_visit_events:
  "store_calls (visit_events env s pid) =
     (if embeds env s pid
      then StoreDelete pid # map (\<lambda>c. StoreAddTexts c pid (title_of env pid)) (page_chunks env pid)
      else [])"
  by (simp add: visit_events_def store_calls_append store_calls_embed_events store_calls_simps
      store_calls_fetch_events)

lemma persisted_visited:
  "persisted s pid h \<Longrightarrow> persisted (visited env s q parent_id) pid h"
  by (auto simp add: persisted_def visited_fields embeds_def wants_indexing_def
      is_already_processed_def split: option.splits)

lemma persisted_traversal:
  "persisted s pid h \<Longrightarrow> persisted (state_of (process_page depth env s q parent_id)) pid h"
  "persisted s pid h \<Longrightarrow> persisted (state_of (process_children depth env s q cs)) pid h"
proof (induction depth env s q parent_id and depth env s q cs
       rule: process_page_process_children.induct)
  case (1 env s q parent_id)
  then show ?case by (simp add: state_of_def)
next
  case (2 depth env s q parent_id)
  show ?case
  proof (cases "pr_status_code (pages_endpoint env q) = 200 \<and>
                \<not> isl (page_title (content (fetched_page env q)))")
    case True
    then have v: "visit_page env s q parent_id = Inr (fetched_page env q, visited env s q parent_id)"
      by (simp add: visit_page_eq)
    from 2(2) have "persisted (visited env s q parent_id) pid h" by (rule persisted_visited)
    with 2(1) [OF v refl] show ?thesis by (simp add: v)
  next
    case False
    with 2(2) show ?thesis
      by (auto simp add: visit_page_eq state_of_def persisted_def)
  qed
next
  case (3 depth env s q)
  then show ?case by (simp add: state_of_def)
next
  case (4 depth env s q child_page rest)
  show ?case
  proof (cases "process_page depth env s (cp_page_id child_page) (Some q)")
    case (Inl e)
    with 4(1) [OF 4(3)] show ?thesis by (simp add: state_of_def)
  next
    case (Inr s1)
    with 4(1) [OF 4(3)] have "persisted s1 pid h" by (simp add: state_of_def)
    with 4(2) [OF Inr] show ?thesis by (simp add: Inr)
  qed
qed


subsection \<open>The family corpus\<close>

lemma family_chunks:
  "page_chunks family_env ''root'' = [''- [A](root)'' @ [CHR 0x0A] @ ''- [B](root)'']"
  "page_chunks family_env ''A'' = [''alpha'']"
  "page_chunks family_env ''B'' = []"
  by (simp_all add: page_chunks_def fetched_page_def corpus_page_blocks family_env_def
      corpus_env_fields family_blocks_def process_blocks_def block_line_def para_block_def
      child_block_def)

lemma family_children:
  "child_pages (fetched_page family_env ''root'') =
     [\<lparr>cp_title = ''A'', cp_page_id = ''A''\<rparr>, \<lparr>cp_title = ''B'', cp_page_id = ''B''\<rparr>]"
  "child_pages (fetched_page family_env ''A'') = []"
  "child_pages (fetched_page family_env ''B'') = []"
  by (simp_all add: fetched_page_def corpus_page_blocks family_env_def
      family_blocks_def para_block_def child_block_def)

lemma fresh_fields:
  "hash_store fresh = Map.empty" "processed_pages fresh = {}" "vector_store fresh = []"
  "trace fresh = []" "hash_file fresh = None" "processed_file fresh = None"
  "knowledge_graph fresh = empty_graph" "graph_file fresh = None"
  by (simp_all add: fresh_def init_def)


subsection \<open>Texts, stale entries and error tallies\<close>

lemma corpus_page_chunks:
  "page_chunks (corpus_env blocks st fails) pid =
     (if process_blocks (if st pid = 200 then blocks pid else []) = [] then []
      else [process_blocks (if st pid = 200 then blocks pid else [])])"
  by (simp add: page_chunks_def fetched_page_def corpus_page_blocks corpus_env_fields)

lemma family_text:
  "process_blocks (family_blocks ''A'') = ''alpha''"
  "process_blocks (family_blocks ''B'') = []"
  by (simp_all add: family_blocks_def process_blocks_def block_line_def para_block_def)

lemma family_hash: "page_hash family_env ''A'' = ''alpha''"
  by (simp add: page_hash_def fetched_page_def corpus_page_blocks family_env_def
      corpus_env_fields family_text)

lemma stale_fields:
  "hash_store stale_state = [''A'' \<mapsto> ''old'']" "processed_pages stale_state = {''A''}"
  "vector_store stale_state = []" "trace stale_state = []"
  by (simp_all add: stale_state_def init_def load_processed_pages_def)

lemma count_list_adds: "count_list (map (\<lambda>c. StoreAddTexts c pid title) cs) (LogChunkError q) = 0"
  by (induction cs) simp_all

lemma count_list_replicate_same: "count_list (replicate k x) x = k"
  by (induction k) simp_all

lemma count_list_fetch_events: "count_list (fetch_events env pid) (LogChunkError q) = 0"
  by (simp add: fetch_events_def blocks_error_events_def)

lemma count_list_visit_events:
  "embeds env s pid \<Longrightarrow>
   count_list (visit_events env s pid) (LogChunkError pid) =
     length (filter Not (chunk_outcomes env
       (trace s @ fetch_events env pid @
        delete_events env (trace s @ fetch_events env pid) pid)
       pid (title_of env pid) (page_chunks env pid)))"
  by (simp add: visit_events_def embed_events_def delete_events_def count_list_adds
      count_list_replicate_same count_list_fetch_events)

lemma set_stored_chunks:
  "set (stored_chunks env tr pid title cs) \<subseteq> (\<lambda>c. (c, pid, title)) ` set cs"
proof -
  have "set (map fst (filter snd (zip cs (chunk_outcomes env tr pid title cs)))) \<subseteq> set cs"
    by (auto dest: set_zip_leftD)
  then show ?thesis unfolding stored_chunks_def by auto
qed


subsection \<open>The corpus with two chunks\<close>

lemma two_chunk_fields:
  "visit_ok two_chunk_env pid"
  "title_of two_chunk_env pid = pid"
  "fetch_events two_chunk_env pid = [HttpGetPage pid, HttpGetBlocks pid]"
  "page_chunks two_chunk_env ''A'' = [''al'', ''pha'']"
  "page_hash two_chunk_env ''A'' = ''alpha''"
  "store_fails two_chunk_env =
     (\<lambda>_ e. e = StoreAddTexts ''- '' ''root'' ''root'' \<or> e = StoreAddTexts ''al'' ''A'' ''A'')"
  by (simp_all add: two_chunk_env_def visit_ok_def title_of_def page_chunks_def page_hash_def
      fetch_events_def blocks_error_events_def
      fetched_page_def page_blocks_def page_title_def corpus_env_def family_text)

lemma two_chunk_root:
  "page_chunks two_chunk_env ''root'' = [''- '', ''[A](root)'' @ [CHR 0x0A] @ ''- [B](root)'']"
  "page_hash two_chunk_env ''root'' = ''- [A](root)'' @ [CHR 0x0A] @ ''- [B](root)''"
  by (simp_all add: two_chunk_env_def page_chunks_def page_hash_def fetched_page_def
      page_blocks_def corpus_env_def family_blocks_def process_blocks_def block_line_def
      child_block_def)

lemma two_chunk_children:
  "child_pages (fetched_page two_chunk_env pid) = child_pages (fetched_page family_env pid)"
  by (simp add: two_chunk_env_def family_env_def fetched_page_def page_blocks_def corpus_env_def)


subsection \<open>The trace of a traversal\<close>

lemma visit_page_cases:
  "(\<exists>e es. visit_page env s q parent_id = Inl (e, s\<lparr>total_pages_found := total_pages_found s +
        (if pr_status_code (pages_endpoint env q) = 200
         then int (length (child_pages (fetched_page env q))) else 0),
        trace := trace s @ HttpGetPage q # es\<rparr>) \<and> \<not> visit_ok env q) \<or>
   (visit_page env s q parent_id = Inr (fetched_page env q, visited env s q parent_id) \<and>
    visit_ok env q)"
  by (auto simp add: visit_page_eq visit_ok_def fetch_events_def)

lemma trace_traversal:
  "\<exists>es. trace (state_of (process_page depth env s q parent_id)) = trace s @ es"
  "\<exists>es. trace (state_of (process_children depth env s q cs)) = trace s @ es"
proof (induction depth env s q parent_id and depth env s q cs
       rule: process_page_process_children.induct)
  case (1 env s q parent_id)
  then show ?case by (simp add: state_of_def)
next
  case (2 depth env s q parent_id)
  show ?case
  proof (cases "visit_ok env q")
    case True
    then have v: "visit_page env s q parent_id = Inr (fetched_page env q, visited env s q parent_id)"
      by (rule visit_page_ok)
    from 2 [OF v refl] obtain es where
      "trace (state_of (process_children depth env (visited env s q parent_id) q
          (child_pages (fetched_page env q)))) = trace (visited env s q parent_id) @ es"
      by blast
    then show ?thesis by (simp add: v visited_fields)
  next
    case False
    with visit_page_cases [of env s q parent_id] show ?thesis
      by (auto simp add: state_of_def)
  qed
next
  case (3 depth env s q)
  then show ?case by (simp add: state_of_def)
next
  case (4 depth env s q child_page rest)
  from 4(1) obtain es1 where
    1: "trace (state_of (process_page depth env s (cp_page_id child_page) (Some q))) = trace s @ es1"
    by blast
  show ?case
  proof (cases "process_page depth env s (cp_page_id child_page) (Some q)")
    case (Inl e)
    with 1 show ?thesis by (simp add: state_of_def)
  next
    case (Inr s1)
    from 4(2) [OF Inr] obtain es2 where
      "trace (state_of (process_children depth env s1 q rest)) = trace s1 @ es2" by blast
    moreover from 1 Inr have "trace s1 = trace s @ es1" by (simp add: state_of_def)
    ultimately show ?thesis by (simp add: Inr)
  qed
qed

lemma process_page_first_event:
  "\<exists>es. trace (state_of (process_page (Suc depth) env s q parent_id)) = trace s @ HttpGetPage q # es"
proof (cases "visit_ok env q")
  case True
  then have v: "visit_page env s q parent_id = Inr (fetched_page env q, visited env s q parent_id)"
    by (rule visit_page_ok)
  obtain es where
    "trace (state_of (process_children depth env (visited env s q parent_id) q
        (child_pages (fetched_page env q)))) = trace (visited env s q parent_id) @ es"
    using trace_traversal(2) by blast
  then show ?thesis
    by (simp add: v visited_fields visit_events_def fetch_events_def)
next
  case False
  with visit_page_cases [of env s q parent_id] show ?thesis
    by (auto simp add: state_of_def)
qed

lemma process_children_first_event:
  "\<exists>es. trace (state_of (process_children (Suc depth) env s q (c # rest))) =
          trace s @ HttpGetPage (cp_page_id c) # es"
proof -
  obtain es1 where
    1: "trace (state_of (process_page (Suc depth) env s (cp_page_id c) (Some q))) =
        trace s @ HttpGetPage (cp_page_id c) # es1"
    using process_page_first_event by blast
  show ?thesis
  proof (cases "process_page (Suc depth) env s (cp_page_id c) (Some q)")
    case (Inl e)
    with 1 show ?thesis by (simp add: state_of_def del: process_page.simps)
  next
    case (Inr s1)
    obtain es2 where
      "trace (state_of (process_children (Suc depth) env s1 q rest)) = trace s1 @ es2"
      using trace_traversal(2) by blast
    moreover from 1 Inr have "trace s1 = trace s @ HttpGetPage (cp_page_id c) # es1"
      by (simp add: state_of_def)
    ultimately show ?thesis by (simp add: Inr del: process_page.simps)
  qed
qed

lemma visit_then_leaf:
  "visit_ok env pid \<Longrightarrow> child_pages (fetched_page env pid) = [] \<Longrightarrow>
   process_page (Suc depth) env s pid parent_id = Inr (visited env s pid parent_id)"
  by (simp add: process_page_Suc del: process_page.simps)

lemma visit_then_first_child:
  assumes "visit_ok env pid" and "child_pages (fetched_page env pid) = c # rest"
  shows "\<exists>es. trace (state_of (process_page (Suc (Suc depth)) env s pid parent_id)) =
          trace (visited env s pid parent_id) @ HttpGetPage (cp_page_id c) # es"
  using assms process_children_first_event [of depth env "visited env s pid parent_id" pid c rest]
  by (simp add: process_page_Suc del: process_page.simps process_children.simps)

lemma returned_depth: "process_page depth env s q parent_id = Inr s1 \<Longrightarrow> \<exists>d. depth = Suc d"
  by (cases depth) simp_all

lemma next_sibling_event:
  assumes "process_page depth env s (cp_page_id c) (Some q) = Inr s1"
  shows "\<exists>es. trace (state_of (process_children depth env s q (c # sib # rest))) =
          trace s1 @ HttpGetPage (cp_page_id sib) # es"
proof -
  from assms obtain d where d: "depth = Suc d" using returned_depth by blast
  have "process_children depth env s q (c # sib # rest) =
        process_children depth env s1 q (sib # rest)"
    using assms by simp
  then show ?thesis
    using process_children_first_event [of d env s1 q sib rest] unfolding d by simp
qed


subsection \<open>More about the example corpora\<close>

lemma family_fetch_events: "fetch_events family_env pid = [HttpGetPage pid, HttpGetBlocks pid]"
  by (simp add: family_env_def corpus_fetch_events)

lemma family_visit_ok: "visit_ok family_env pid"
  by (simp add: family_env_def corpus_visit_ok)

lemma family_title_of: "title_of family_env pid = pid"
  by (simp add: family_env_def corpus_title_of)





subsection \<open>Lines and references of blocks\<close>

lemma block_lines_nth:
  "i < length blocks \<Longrightarrow> block_lines blocks ! i = block_line (blocks ! i)"
  by (induction blocks arbitrary: i) (auto simp: nth_Cons split: nat.splits)

lemma length_block_lines: "length (block_lines blocks) = length blocks"
  by (induction blocks) auto

lemma get_child_pages_append:
  "get_child_pages (xs @ ys) = get_child_pages xs @ get_child_pages ys"
  by (induction xs) auto

lemma block_line_child_page:
  "b_type b = ''child_page'' \<Longrightarrow>
   block_line b = ''- ['' @ b_child_title b @ '']('' @ b_parent_page_id b @ '')''"
  by (simp add: block_line_def)

lemma join_contains: "x \<in> set xs \<Longrightarrow> \<exists>u v. join sep xs = u @ x @ v"
proof (induction sep xs rule: join.induct)
  case (1 sep)
  then show ?case by simp
next
  case (2 sep y)
  then have "join sep [y] = [] @ x @ []" by simp
  then show ?case by blast
next
  case (3 sep y z zs)
  show ?case
  proof (cases "x = y")
    case True
    then have "join sep (y # z # zs) = [] @ x @ (sep @ join sep (z # zs))" by simp
    then show ?thesis by blast
  next
    case False
    with 3 obtain u v where "join sep (z # zs) = u @ x @ v" by auto
    then have "join sep (y # z # zs) = (y @ sep @ u) @ x @ v" by simp
    then show ?thesis by blast
  qed
qed

lemma child_page_ref:
  assumes "i < length blocks" and "b_type (blocks ! i) = ''child_page''"
  shows "get_child_pages blocks =
           get_child_pages (take i blocks) @
           \<lparr>cp_title = b_child_title (blocks ! i), cp_page_id = b_id (blocks ! i)\<rparr> #
           get_child_pages (drop (Suc i) blocks)"
proof -
  have "blocks = take i blocks @ (blocks ! i) # drop (Suc i) blocks"
    using assms(1) by (rule id_take_nth_drop)
  then have "get_child_pages blocks =
          get_child_pages (take i blocks) @ get_child_pages ((blocks ! i) # drop (Suc i) blocks)"
    using get_child_pages_append by metis
  then show ?thesis using assms(2) by simp
qed

lemma family_endpoints:
  "pr_status_code (pages_endpoint family_env pid) = 200"
  "br_status_code (blocks_endpoint family_env pid) = 200"
  "br_results (blocks_endpoint family_env pid) = family_blocks pid"
  by (simp_all add: family_env_def corpus_env_fields)


subsection \<open>The store that refuses deletions\<close>

lemma no_delete_fields:
  "visit_ok no_delete_env pid"
  "title_of no_delete_env pid = pid"
  "fetch_events no_delete_env pid = [HttpGetPage pid, HttpGetBlocks pid]"
  "page_chunks no_delete_env ''A'' = [''alpha'']"
  "store_fails no_delete_env = (\<lambda>_ e. e = StoreDelete ''A'')"
  by (simp_all add: no_delete_env_def corpus_visit_ok corpus_title_of corpus_fetch_events
      corpus_page_chunks family_text corpus_env_fields)

lemma family_store_fails: "store_fails family_env = (\<lambda>_ _. False)"
  by (simp add: family_env_def corpus_env_fields)


subsection \<open>Page requests in the events of a visit\<close>


lemma fetched_pages_append: "fetched_pages (xs @ ys) = fetched_pages xs @ fetched_pages ys"
  by (induction xs rule: fetched_pages.induct) simp_all

lemma fetched_pages_adds: "fetched_pages (map (\<lambda>c. StoreAddTexts c pid title) cs) = []"
  by (induction cs) simp_all

lemma fetched_pages_replicate_log: "fetched_pages (replicate k (LogChunkError pid)) = []"
  by (induction k) simp_all

lemma fetched_pages_fetch_events: "fetched_pages (fetch_events env pid) = [pid]"
  by (simp add: fetch_events_def blocks_error_events_def)

lemma fetched_pages_delete_events: "fetched_pages (delete_events env tr pid) = []"
  by (simp add: delete_events_def)

lemma returned_trace:
  assumes "visit_ok env pid" and "process_page (Suc depth) env s pid parent_id = Inr s1"
  shows "\<exists>mid. trace s1 = trace (visited env s pid parent_id) @ mid"
proof -
  from assms have "process_children depth env (visited env s pid parent_id) pid
      (child_pages (fetched_page env pid)) = Inr s1"
    by (simp add: process_page_Suc del: process_page.simps)
  then have "state_of (process_children depth env (visited env s pid parent_id) pid
      (child_pages (fetched_page env pid))) = s1"
    by (simp add: state_of_def)
  then show ?thesis
    using trace_traversal(2) [of depth env "visited env s pid parent_id" pid
        "child_pages (fetched_page env pid)"] by simp
qed


subsection \<open>The graph during a traversal\<close>


lemma count_list_distinct:
  "distinct xs \<Longrightarrow> count_list xs x = (if x \<in> set xs then 1 else 0)"
  by (induction xs) auto

lemma add_node_fields:
  "g_edges (add_node n t g) = g_edges g"
  "fst ` set (g_nodes (add_node n t g)) = insert n (fst ` set (g_nodes g))"
  "map_of (g_nodes (add_node n t g)) n = Some (Some t)"
  "wf_graph g \<Longrightarrow> wf_graph (add_node n t g)"
  by (simp_all add: add_node_def wf_graph_def dom_update update_conv' distinct_update)

lemma add_node_twice: "add_node n t (add_node n t g) = add_node n t g"
  by (simp add: add_node_def update_conv' update_triv)

lemma add_node_present:
  "map_of (g_nodes g) n = Some (Some t) \<Longrightarrow> add_node n t g = g"
  by (simp add: add_node_def update_triv)

lemma ensure_node_fields:
  "g_edges (ensure_node n g) = g_edges g"
  "fst ` set (g_nodes (ensure_node n g)) = insert n (fst ` set (g_nodes g))"
  "map_of (g_nodes (ensure_node n g)) n \<noteq> None"
  "map_of (g_nodes g) m = Some a \<Longrightarrow> map_of (g_nodes (ensure_node n g)) m = Some a"
  "wf_graph g \<Longrightarrow> wf_graph (ensure_node n g)"
  by (auto simp add: ensure_node_def wf_graph_def map_of_eq_None_iff map_add_Some_iff
      weak_map_of_SomeI image_iff)

lemma ensure_node_present: "map_of (g_nodes g) n \<noteq> None \<Longrightarrow> ensure_node n g = g"
  by (simp add: ensure_node_def)

lemma add_edge_fields:
  "set (g_edges (add_edge u v g)) = insert (u, v) (set (g_edges g))"
  "fst ` set (g_nodes (add_edge u v g)) = insert u (insert v (fst ` set (g_nodes g)))"
  "map_of (g_nodes g) m = Some a \<Longrightarrow> map_of (g_nodes (add_edge u v g)) m = Some a"
  "wf_graph g \<Longrightarrow> wf_graph (add_edge u v g)"
proof -
  let ?g1 = "ensure_node v (ensure_node u g)"
  show "set (g_edges (add_edge u v g)) = insert (u, v) (set (g_edges g))"
    by (auto simp add: add_edge_def Let_def ensure_node_fields)
  show "fst ` set (g_nodes (add_edge u v g)) = insert u (insert v (fst ` set (g_nodes g)))"
    by (auto simp add: add_edge_def Let_def ensure_node_fields)
  show "map_of (g_nodes g) m = Some a \<Longrightarrow> map_of (g_nodes (add_edge u v g)) m = Some a"
    by (simp add: add_edge_def Let_def ensure_node_fields)
  assume "wf_graph g"
  then have "wf_graph ?g1" by (simp add: ensure_node_fields)
  then show "wf_graph (add_edge u v g)"
    by (simp add: add_edge_def Let_def wf_graph_def)
qed

lemma add_edge_twice: "add_edge u v (add_edge u v g) = add_edge u v g"
proof -
  let ?g = "add_edge u v g"
  have "u \<in> fst ` set (g_nodes ?g)" "v \<in> fst ` set (g_nodes ?g)"
    by (simp_all add: add_edge_fields)
  then have "map_of (g_nodes ?g) u \<noteq> None" "map_of (g_nodes ?g) v \<noteq> None"
    by (simp_all add: map_of_eq_None_iff)
  then have "ensure_node v (ensure_node u ?g) = ?g" by (simp add: ensure_node_present)
  moreover have "(u, v) \<in> set (g_edges ?g)" by (simp add: add_edge_fields)
  ultimately show ?thesis by (simp add: add_edge_def [of u v ?g] Let_def)
qed

lemma graph_after_fields:
  "set (g_edges g) \<subseteq> set (g_edges (graph_after g pid t par))"
  "fst ` set (g_nodes g) \<subseteq> fst ` set (g_nodes (graph_after g pid t par))"
  "pid \<in> fst ` set (g_nodes (graph_after g pid t par))"
  "par = Some p \<Longrightarrow> p \<noteq> '''' \<Longrightarrow> (p, pid) \<in> set (g_edges (graph_after g pid t par))"
  "map_of (g_nodes (graph_after g pid t par)) pid = Some (Some t)"
  "wf_graph g \<Longrightarrow> wf_graph (graph_after g pid t par)"
  by (auto simp add: graph_after_def add_edge_fields add_node_fields split: option.splits)

lemma graph_after_twice:
  "graph_after (graph_after g pid t par) pid t par = graph_after g pid t par"
proof -
  have n: "add_node pid t (graph_after g pid t par) = graph_after g pid t par"
    by (rule add_node_present) (rule graph_after_fields)
  show ?thesis
  proof (cases par)
    case None
    then show ?thesis by (simp add: graph_after_def add_node_twice)
  next
    case (Some p)
    show ?thesis
    proof (cases "p = ''''")
      case True
      with Some show ?thesis by (simp add: graph_after_def add_node_twice)
    next
      case False
      have "graph_after (graph_after g pid t par) pid t par =
            add_edge p pid (add_node pid t (graph_after g pid t par))"
        using Some False by (simp add: graph_after_def)
      also have "\<dots> = add_edge p pid (graph_after g pid t par)" by (simp only: n)
      also have "\<dots> = graph_after g pid t par"
        using Some False by (simp add: graph_after_def add_edge_twice)
      finally show ?thesis .
    qed
  qed
qed

lemma graph_traversal:
  "(wf_graph (knowledge_graph s) \<longrightarrow>
      wf_graph (knowledge_graph (state_of (process_page depth env s q parent_id)))) \<and>
   set (g_edges (knowledge_graph s)) \<subseteq>
     set (g_edges (knowledge_graph (state_of (process_page depth env s q parent_id)))) \<and>
   fst ` set (g_nodes (knowledge_graph s)) \<subseteq>
     fst ` set (g_nodes (knowledge_graph (state_of (process_page depth env s q parent_id))))"
  "(wf_graph (knowledge_graph s) \<longrightarrow>
      wf_graph (knowledge_graph (state_of (process_children depth env s q cs)))) \<and>
   set (g_edges (knowledge_graph s)) \<subseteq>
     set (g_edges (knowledge_graph (state_of (process_children depth env s q cs)))) \<and>
   fst ` set (g_nodes (knowledge_graph s)) \<subseteq>
     fst ` set (g_nodes (knowledge_graph (state_of (process_children depth env s q cs))))"
proof (induction depth env s q parent_id and depth env s q cs
       rule: process_page_process_children.induct)
  case (1 env s q parent_id)
  then show ?case by (simp add: state_of_def)
next
  case (2 depth env s q parent_id)
  show ?case
  proof (cases "visit_ok env q")
    case True
    then have v: "visit_page env s q parent_id = Inr (fetched_page env q, visited env s q parent_id)"
      by (rule visit_page_ok)
    have g: "(wf_graph (knowledge_graph s) \<longrightarrow> wf_graph (knowledge_graph (visited env s q parent_id)))"
      "set (g_edges (knowledge_graph s)) \<subseteq> set (g_edges (knowledge_graph (visited env s q parent_id)))"
      "fst ` set (g_nodes (knowledge_graph s)) \<subseteq>
         fst ` set (g_nodes (knowledge_graph (visited env s q parent_id)))"
      by (simp_all add: visited_fields graph_after_fields)
    from 2(1) [OF v refl] g show ?thesis
      by (simp add: v del: process_children.simps) blast
  next
    case False
    with visit_page_cases [of env s q parent_id] show ?thesis
      by (auto simp add: state_of_def)
  qed
next
  case (3 depth env s q)
  then show ?case by (simp add: state_of_def)
next
  case (4 depth env s q child_page rest)
  show ?case
  proof (cases "process_page depth env s (cp_page_id child_page) (Some q)")
    case (Inl e)
    with 4(1) show ?thesis by (simp add: state_of_def)
  next
    case (Inr s1)
    with 4(1) have a: "(wf_graph (knowledge_graph s) \<longrightarrow> wf_graph (knowledge_graph s1))"
      "set (g_edges (knowledge_graph s)) \<subseteq> set (g_edges (knowledge_graph s1))"
      "fst ` set (g_nodes (knowledge_graph s)) \<subseteq> fst ` set (g_nodes (knowledge_graph s1))"
      by (simp_all add: state_of_def)
    from 4(2) [OF Inr] a show ?thesis by (simp add: Inr del: process_page.simps) blast
  qed
qed

lemma returned_visit:
  assumes "process_page depth env s pid parent_id = Inr s1"
  shows "\<exists>d. depth = Suc d \<and> visit_ok env pid \<and>
           process_children d env (visited env s pid parent_id) pid
             (child_pages (fetched_page env pid)) = Inr s1"
proof -
  from assms obtain d where d: "depth = Suc d" using returned_depth by blast
  have ok: "visit_ok env pid"
    using assms visit_page_cases [of env s pid parent_id] unfolding d by auto
  with assms show ?thesis unfolding d by (simp add: process_page_Suc del: process_page.simps)
qed

lemma observed_pair:
  assumes "process_children depth env s q cs = Inr s1" and "c \<in> set cs"
  shows "cp_page_id c \<in> fst ` set (g_nodes (knowledge_graph s1)) \<and>
         (q \<noteq> '''' \<longrightarrow> (q, cp_page_id c) \<in> set (g_edges (knowledge_graph s1)))"
  using assms
proof (induction cs arbitrary: s)
  case Nil
  then show ?case by simp
next
  case (Cons a cs)
  from Cons.prems(1) obtain s2 where
    a: "process_page depth env s (cp_page_id a) (Some q) = Inr s2"
    and r: "process_children depth env s2 q cs = Inr s1"
    by (auto split: sum.splits simp del: process_page.simps)
  show ?case
  proof (cases "c = a")
    case True
    from returned_visit [OF a] obtain d where d: "depth = Suc d" "visit_ok env (cp_page_id a)"
      "process_children d env (visited env s (cp_page_id a) (Some q)) (cp_page_id a)
             (child_pages (fetched_page env (cp_page_id a))) = Inr s2" by blast
    let ?v = "visited env s (cp_page_id a) (Some q)"
    have 1: "cp_page_id a \<in> fst ` set (g_nodes (knowledge_graph ?v))"
      "q \<noteq> '''' \<longrightarrow> (q, cp_page_id a) \<in> set (g_edges (knowledge_graph ?v))"
      by (simp_all add: visited_fields graph_after_fields)
    have 2: "set (g_edges (knowledge_graph ?v)) \<subseteq> set (g_edges (knowledge_graph s2))"
      "fst ` set (g_nodes (knowledge_graph ?v)) \<subseteq> fst ` set (g_nodes (knowledge_graph s2))"
      using graph_traversal(2) [of ?v d env "cp_page_id a" "child_pages (fetched_page env (cp_page_id a))"]
      by (simp_all add: d(3) state_of_def)
    have 3: "set (g_edges (knowledge_graph s2)) \<subseteq> set (g_edges (knowledge_graph s1))"
      "fst ` set (g_nodes (knowledge_graph s2)) \<subseteq> fst ` set (g_nodes (knowledge_graph s1))"
      using graph_traversal(2) [of s2 depth env q cs] by (simp_all add: r state_of_def)
    from 1 2 3 show ?thesis unfolding True by blast
  next
    case False
    with Cons.prems(2) have "c \<in> set cs" by simp
    from Cons.IH [OF r this] show ?thesis .
  qed
qed


subsection \<open>The pages a traversal requests\<close>


























section \<open>The decision to index a page\<close>

text \<open>
  Claim C1, as the code has it. The decision depends on the set of processed pages first: a
  visit calls the vector store exactly when the page is not in the set of processed pages,
  its stored fingerprint is absent or differs from the fresh one, and its text has chunks;
  only then is the entry of the hash store replaced by the fresh fingerprint. A page in the
  set of processed pages is fetched, and nothing else happens to the vector store, the hash
  store or its file, whatever the stored fingerprint is.
\<close>


theorem skip_decision:
  assumes "visit_ok env pid"
  shows "\<exists>s'. visit_page env s pid parent_id = Inr (fetched_page env pid, s') \<and>
          (store_calls (events_since s s') \<noteq> [] \<longleftrightarrow>
             \<not> is_already_processed s pid \<and>
             (is_new_page s pid \<or> is_page_modified s pid (page_hash env pid)) \<and>
             page_chunks env pid \<noteq> []) \<and>
          hash_store s' =
            (if \<not> is_already_processed s pid \<and>
                (is_new_page s pid \<or> is_page_modified s pid (page_hash env pid)) \<and>
                page_chunks env pid \<noteq> []
             then (hash_store s)(pid \<mapsto> page_hash env pid) else hash_store s) \<and>
          (is_already_processed s pid \<longrightarrow>
             events_since s s' = fetch_events env pid \<and>
             vector_store s' = vector_store s \<and> hash_store s' = hash_store s \<and>
             hash_file s' = hash_file s)"
proof -
  let ?s' = "visited env s pid parent_id"
  have e: "embeds env s pid \<longleftrightarrow>
             \<not> is_already_processed s pid \<and>
             (is_new_page s pid \<or> is_page_modified s pid (page_hash env pid)) \<and>
             page_chunks env pid \<noteq> []"
    by (simp add: embeds_def wants_indexing_def)
  have 1: "visit_page env s pid parent_id = Inr (fetched_page env pid, ?s')"
    using assms by (rule visit_page_ok)
  have 2: "store_calls (events_since s ?s') \<noteq> [] \<longleftrightarrow> embeds env s pid"
    by (simp add: events_since_visited store_calls_visit_events)
  have 3: "hash_store ?s' =
      (if embeds env s pid then (hash_store s)(pid \<mapsto> page_hash env pid) else hash_store s)"
    by (simp add: visited_fields)
  have 4: "is_already_processed s pid \<longrightarrow>
             events_since s ?s' = fetch_events env pid \<and>
             vector_store ?s' = vector_store s \<and> hash_store ?s' = hash_store s \<and>
             hash_file ?s' = hash_file s"
    by (simp add: events_since_visited visit_events_def visited_fields embeds_def
        wants_indexing_def)
  from 1 2 3 4 show ?thesis unfolding e by blast
qed

theorem skip_decision_witness:
  "visit_ok family_env ''A'' \<and> is_already_processed stale_state ''A'' \<and>
   (\<exists>s'. visit_page family_env stale_state ''A'' (Some ''root'') =
            Inr (fetched_page family_env ''A'', s') \<and>
          store_calls (events_since stale_state s') = [] \<and>
          events_since stale_state s' = [HttpGetPage ''A'', HttpGetBlocks ''A''] \<and>
          vector_store s' = [] \<and> hash_store s' = [''A'' \<mapsto> ''old''])"
proof -
  have a: "visit_ok family_env ''A''" by (rule family_visit_ok)
  have b: "is_already_processed stale_state ''A''"
    by (simp add: is_already_processed_def stale_fields)
  from skip_decision [OF a, of stale_state "Some ''root''"] b
  have "\<exists>s'. visit_page family_env stale_state ''A'' (Some ''root'') =
            Inr (fetched_page family_env ''A'', s') \<and>
          store_calls (events_since stale_state s') = [] \<and>
          events_since stale_state s' = [HttpGetPage ''A'', HttpGetBlocks ''A''] \<and>
          vector_store s' = [] \<and> hash_store s' = [''A'' \<mapsto> ''old'']"
    by (auto simp add: stale_fields family_fetch_events)
  with a b show ?thesis by simp
qed

text \<open>
  Claim C1 as stated fails: A is in the set of processed pages with the stored fingerprint
  \<^verbatim>\<open>old\<close>, its fresh fingerprint is another one and its text has a chunk, and yet the
  visit calls the vector store not once and leaves the stored fingerprint as it was.
\<close>

theorem processed_page_is_not_reembedded:
  "is_already_processed stale_state ''A'' \<and>
   hash_store stale_state ''A'' = Some ''old'' \<and>
   page_hash family_env ''A'' = ''alpha'' \<and>
   is_page_modified stale_state ''A'' (page_hash family_env ''A'') \<and>
   page_chunks family_env ''A'' = [''alpha''] \<and>
   \<not> isl (visit_page family_env stale_state ''A'' (Some ''root'')) \<and>
   hash_store (snd (projr (visit_page family_env stale_state ''A'' (Some ''root'')))) ''A''
     = Some ''old'' \<and>
   store_calls (events_since stale_state
     (snd (projr (visit_page family_env stale_state ''A'' (Some ''root''))))) = [] \<and>
   vector_store (snd (projr (visit_page family_env stale_state ''A'' (Some ''root'')))) = []"
proof -
  have ne: "\<not> embeds family_env stale_state ''A''"
    by (simp add: embeds_def wants_indexing_def is_already_processed_def stale_fields)
  have v: "visit_page family_env stale_state ''A'' (Some ''root'') =
           Inr (fetched_page family_env ''A'', visited family_env stale_state ''A'' (Some ''root''))"
    by (rule visit_page_ok [OF family_visit_ok])
  show ?thesis
    using ne
    by (simp add: v is_already_processed_def is_page_modified_def stale_fields family_hash
        family_chunks visited_fields events_since_visited store_calls_visit_events)
qed


section \<open>How often a page is visited\<close>





section \<open>Fetching a node\<close>





section \<open>Chunks that the store refuses\<close>

text \<open>
  Claim C4. A page whose chunks are submitted is one that is not in the set of processed
  pages, is new or modified, and whose text splits into at least one chunk. For such a page,
  every chunk is submitted to the vector store, in order and after the deletion, whatever
  submissions fail: the calls of the store during the visit are the deletion followed by one
  addition per chunk. Each failed submission is logged once, the chunks whose submission
  succeeded are the last documents of the store, and the visit returns normally. After the
  chunk phase the hash store and its file hold the fresh fingerprint of the page: the last
  two events of the visit are the writes of the hash file and of the file of processed pages.
  The run continues: a page without child pages returns to its caller, the next event after
  the visit of a page with child pages is the page request for its first child, and when the
  page is a child without child pages of its own, the next event is the page request for its
  next sibling.
\<close>

theorem chunk_failures_tolerated:
  assumes "visit_ok env pid"
    and "\<not> is_already_processed s pid"
    and "is_new_page s pid \<or> is_page_modified s pid (page_hash env pid)"
    and "page_chunks env pid \<noteq> []"
  shows "\<exists>s' old es.
          visit_page env s pid parent_id = Inr (fetched_page env pid, s') \<and>
          store_calls (events_since s s') =
            StoreDelete pid #
            map (\<lambda>c. StoreAddTexts c pid (title_of env pid)) (page_chunks env pid) \<and>
          count_list (events_since s s') (LogChunkError pid) =
            length (filter Not
              (chunk_outcomes env
                (trace s @ fetch_events env pid @
                 delete_events env (trace s @ fetch_events env pid) pid)
                pid (title_of env pid) (page_chunks env pid))) \<and>
          vector_store s' =
            old @ stored_chunks env
                (trace s @ fetch_events env pid @
                 delete_events env (trace s @ fetch_events env pid) pid)
                pid (title_of env pid) (page_chunks env pid) \<and>
          events_since s s' = es @ [WriteHashStore, WriteProcessedPages] \<and>
          hash_store s' pid = Some (page_hash env pid) \<and>
          hash_file s' = Some (hash_store s') \<and>
          (child_pages (fetched_page env pid) = [] \<longrightarrow>
             process_page (Suc depth) env s pid parent_id = Inr s') \<and>
          (\<forall>c rest. child_pages (fetched_page env pid) = c # rest \<longrightarrow>
             (\<exists>es. trace (state_of (process_page (Suc (Suc depth)) env s pid parent_id)) =
                    trace s' @ HttpGetPage (cp_page_id c) # es)) \<and>
          (\<forall>par t sib rest.
             parent_id = Some par \<and> child_pages (fetched_page env pid) = [] \<longrightarrow>
             (\<exists>es. trace (state_of (process_children (Suc depth) env s par
                             (\<lparr>cp_title = t, cp_page_id = pid\<rparr> # sib # rest))) =
                    trace s' @ HttpGetPage (cp_page_id sib) # es))"
proof -
  let ?s' = "visited env s pid parent_id"
  let ?pre = "trace s @ fetch_events env pid"
  let ?tr = "trace s @ fetch_events env pid @ delete_events env ?pre pid"
  let ?old = "if store_fails env ?pre (StoreDelete pid) then vector_store s
              else filter (\<lambda>d. fst (snd d) \<noteq> pid) (vector_store s)"
  let ?es = "fetch_events env pid @ delete_events env ?pre pid @
             map (\<lambda>c. StoreAddTexts c pid (title_of env pid)) (page_chunks env pid) @
             replicate (length (filter Not (chunk_outcomes env ?tr
               pid (title_of env pid) (page_chunks env pid)))) (LogChunkError pid)"
  have e: "embeds env s pid" using assms(2-4) by (rule embedsI)
  have 1: "visit_page env s pid parent_id = Inr (fetched_page env pid, ?s')"
    using assms(1) by (rule visit_page_ok)
  have 2: "store_calls (events_since s ?s') =
            StoreDelete pid # map (\<lambda>c. StoreAddTexts c pid (title_of env pid)) (page_chunks env pid)"
    using e by (simp add: events_since_visited store_calls_visit_events)
  have 3: "count_list (events_since s ?s') (LogChunkError pid) =
            length (filter Not (chunk_outcomes env ?tr pid (title_of env pid) (page_chunks env pid)))"
    using e by (simp add: events_since_visited count_list_visit_events)
  have 4: "vector_store ?s' =
            ?old @ stored_chunks env ?tr pid (title_of env pid) (page_chunks env pid)"
    using e by (simp add: visited_fields embed_store_def)
  have 5: "hash_store ?s' pid = Some (page_hash env pid)" "hash_file ?s' = Some (hash_store ?s')"
    using e by (simp_all add: visited_fields)
  have 6: "events_since s ?s' = ?es @ [WriteHashStore, WriteProcessedPages]"
    using e by (simp add: events_since_visited visit_events_def embed_events_def)
  have 7: "child_pages (fetched_page env pid) = [] \<longrightarrow>
      process_page (Suc depth) env s pid parent_id = Inr ?s'"
    using assms(1) by (simp add: visit_then_leaf del: process_page.simps)
  have 8: "\<forall>c rest. child_pages (fetched_page env pid) = c # rest \<longrightarrow>
      (\<exists>es. trace (state_of (process_page (Suc (Suc depth)) env s pid parent_id)) =
             trace ?s' @ HttpGetPage (cp_page_id c) # es)"
    using assms(1) visit_then_first_child by blast
  have 9: "\<forall>par t sib rest.
      parent_id = Some par \<and> child_pages (fetched_page env pid) = [] \<longrightarrow>
      (\<exists>es. trace (state_of (process_children (Suc depth) env s par
                      (\<lparr>cp_title = t, cp_page_id = pid\<rparr> # sib # rest))) =
             trace ?s' @ HttpGetPage (cp_page_id sib) # es)"
  proof (intro allI impI)
    fix par t sib rest
    assume a: "parent_id = Some par \<and> child_pages (fetched_page env pid) = []"
    then have "process_page (Suc depth) env s
                 (cp_page_id \<lparr>cp_title = t, cp_page_id = pid\<rparr>) (Some par) = Inr ?s'"
      using 7 by simp
    then show "\<exists>es. trace (state_of (process_children (Suc depth) env s par
                      (\<lparr>cp_title = t, cp_page_id = pid\<rparr> # sib # rest))) =
             trace ?s' @ HttpGetPage (cp_page_id sib) # es"
      by (rule next_sibling_event)
  qed
  from 1 2 3 4 5 6 7 8 9 show ?thesis by blast
qed

theorem chunk_failures_tolerated_witness:
  "visit_ok two_chunk_env ''root'' \<and> visit_ok two_chunk_env ''A'' \<and>
   \<not> is_already_processed fresh ''root'' \<and> is_new_page fresh ''root'' \<and>
   \<not> is_already_processed fresh ''A'' \<and> is_new_page fresh ''A'' \<and>
   page_chunks two_chunk_env ''root'' = [''- '', ''[A](root)'' @ [CHR 0x0A] @ ''- [B](root)''] \<and>
   page_chunks two_chunk_env ''A'' = [''al'', ''pha''] \<and>
   store_fails two_chunk_env [] (StoreAddTexts ''- '' ''root'' ''root'') \<and>
   store_fails two_chunk_env [] (StoreAddTexts ''al'' ''A'' ''A'') \<and>
   (\<exists>s' old.
          visit_page two_chunk_env fresh ''root'' None =
            Inr (fetched_page two_chunk_env ''root'', s') \<and>
          store_calls (events_since fresh s') =
            [StoreDelete ''root'', StoreAddTexts ''- '' ''root'' ''root'',
             StoreAddTexts (''[A](root)'' @ [CHR 0x0A] @ ''- [B](root)'') ''root'' ''root''] \<and>
          count_list (events_since fresh s') (LogChunkError ''root'') = 1 \<and>
          vector_store s' = old @ [(''[A](root)'' @ [CHR 0x0A] @ ''- [B](root)'', ''root'', ''root'')] \<and>
          hash_store s' ''root'' = Some (''- [A](root)'' @ [CHR 0x0A] @ ''- [B](root)'') \<and>
          hash_file s' = Some (hash_store s') \<and>
          (\<exists>es. trace (state_of (process_page (Suc (Suc 0)) two_chunk_env fresh ''root'' None)) =
                 trace s' @ HttpGetPage ''A'' # es)) \<and>
   (\<exists>s' old.
          visit_page two_chunk_env fresh ''A'' (Some ''root'') =
            Inr (fetched_page two_chunk_env ''A'', s') \<and>
          store_calls (events_since fresh s') =
            [StoreDelete ''A'', StoreAddTexts ''al'' ''A'' ''A'', StoreAddTexts ''pha'' ''A'' ''A''] \<and>
          count_list (events_since fresh s') (LogChunkError ''A'') = 1 \<and>
          vector_store s' = old @ [(''pha'', ''A'', ''A'')] \<and>
          hash_store s' ''A'' = Some ''alpha'' \<and>
          hash_file s' = Some (hash_store s') \<and>
          process_page (Suc 0) two_chunk_env fresh ''A'' (Some ''root'') = Inr s' \<and>
          (\<exists>es. trace (state_of (process_children (Suc 0) two_chunk_env fresh ''root''
                    [\<lparr>cp_title = ''A'', cp_page_id = ''A''\<rparr>,
                     \<lparr>cp_title = ''B'', cp_page_id = ''B''\<rparr>])) =
                 trace s' @ HttpGetPage ''B'' # es))"
proof -
  have a: "visit_ok two_chunk_env ''root''" "visit_ok two_chunk_env ''A''"
    by (rule two_chunk_fields)+
  have b: "\<not> is_already_processed fresh ''root''" "\<not> is_already_processed fresh ''A''"
    by (simp_all add: is_already_processed_def fresh_fields)
  have c: "is_new_page fresh ''root''" "is_new_page fresh ''A''"
    by (simp_all add: is_new_page_def fresh_fields)
  have d: "page_chunks two_chunk_env ''root'' \<noteq> []" "page_chunks two_chunk_env ''A'' \<noteq> []"
    by (simp_all add: two_chunk_fields two_chunk_root)
  have f: "store_fails two_chunk_env [] (StoreAddTexts ''- '' ''root'' ''root'')"
    "store_fails two_chunk_env [] (StoreAddTexts ''al'' ''A'' ''A'')"
    by (simp_all add: two_chunk_fields)
  from chunk_failures_tolerated [of two_chunk_env "''root''" fresh None 0] a b c d
  obtain s' old where
    "visit_page two_chunk_env fresh ''root'' None = Inr (fetched_page two_chunk_env ''root'', s')"
    "store_calls (events_since fresh s') =
            [StoreDelete ''root'', StoreAddTexts ''- '' ''root'' ''root'',
             StoreAddTexts (''[A](root)'' @ [CHR 0x0A] @ ''- [B](root)'') ''root'' ''root'']"
    "count_list (events_since fresh s') (LogChunkError ''root'') = 1"
    "vector_store s' = old @ [(''[A](root)'' @ [CHR 0x0A] @ ''- [B](root)'', ''root'', ''root'')]"
    "hash_store s' ''root'' = Some (''- [A](root)'' @ [CHR 0x0A] @ ''- [B](root)'')"
    "hash_file s' = Some (hash_store s')"
    "\<exists>es. trace (state_of (process_page (Suc (Suc 0)) two_chunk_env fresh ''root'' None)) =
                 trace s' @ HttpGetPage ''A'' # es"
    by (auto simp add: two_chunk_fields two_chunk_root two_chunk_children family_children
        stored_chunks_def simp del: process_page.simps)
  then have r: "\<exists>s' old.
          visit_page two_chunk_env fresh ''root'' None =
            Inr (fetched_page two_chunk_env ''root'', s') \<and>
          store_calls (events_since fresh s') =
            [StoreDelete ''root'', StoreAddTexts ''- '' ''root'' ''root'',
             StoreAddTexts (''[A](root)'' @ [CHR 0x0A] @ ''- [B](root)'') ''root'' ''root''] \<and>
          count_list (events_since fresh s') (LogChunkError ''root'') = 1 \<and>
          vector_store s' = old @ [(''[A](root)'' @ [CHR 0x0A] @ ''- [B](root)'', ''root'', ''root'')] \<and>
          hash_store s' ''root'' = Some (''- [A](root)'' @ [CHR 0x0A] @ ''- [B](root)'') \<and>
          hash_file s' = Some (hash_store s') \<and>
          (\<exists>es. trace (state_of (process_page (Suc (Suc 0)) two_chunk_env fresh ''root'' None)) =
                 trace s' @ HttpGetPage ''A'' # es)"
    by blast
  note A = chunk_failures_tolerated [of two_chunk_env "''A''" fresh "Some ''root''" 0,
      OF a(2) b(2) disjI1 [OF c(2)] d(2)]
  from A obtain s' old where
    "visit_page two_chunk_env fresh ''A'' (Some ''root'') = Inr (fetched_page two_chunk_env ''A'', s')"
    "store_calls (events_since fresh s') =
            [StoreDelete ''A'', StoreAddTexts ''al'' ''A'' ''A'', StoreAddTexts ''pha'' ''A'' ''A'']"
    "count_list (events_since fresh s') (LogChunkError ''A'') = 1"
    "vector_store s' = old @ [(''pha'', ''A'', ''A'')]"
    "hash_store s' ''A'' = Some ''alpha''" "hash_file s' = Some (hash_store s')"
    "process_page (Suc 0) two_chunk_env fresh ''A'' (Some ''root'') = Inr s'"
    "\<forall>par t sib rest. Some ''root'' = Some par \<and> child_pages (fetched_page two_chunk_env ''A'') = [] \<longrightarrow>
       (\<exists>es. trace (state_of (process_children (Suc 0) two_chunk_env fresh par
                             (\<lparr>cp_title = t, cp_page_id = ''A''\<rparr> # sib # rest))) =
               trace s' @ HttpGetPage (cp_page_id sib) # es)"
    by (auto simp add: two_chunk_fields two_chunk_children family_children stored_chunks_def
        simp del: process_page.simps process_children.simps)
  moreover from this(8) [rule_format, of "''root''" "''A''" "\<lparr>cp_title = ''B'', cp_page_id = ''B''\<rparr>" "[]"]
  have "\<exists>es. trace (state_of (process_children (Suc 0) two_chunk_env fresh ''root''
                    [\<lparr>cp_title = ''A'', cp_page_id = ''A''\<rparr>,
                     \<lparr>cp_title = ''B'', cp_page_id = ''B''\<rparr>])) =
                 trace s' @ HttpGetPage ''B'' # es"
    by (simp add: two_chunk_children family_children del: process_page.simps process_children.simps)
  ultimately have l: "\<exists>s' old.
          visit_page two_chunk_env fresh ''A'' (Some ''root'') =
            Inr (fetched_page two_chunk_env ''A'', s') \<and>
          store_calls (events_since fresh s') =
            [StoreDelete ''A'', StoreAddTexts ''al'' ''A'' ''A'', StoreAddTexts ''pha'' ''A'' ''A''] \<and>
          count_list (events_since fresh s') (LogChunkError ''A'') = 1 \<and>
          vector_store s' = old @ [(''pha'', ''A'', ''A'')] \<and>
          hash_store s' ''A'' = Some ''alpha'' \<and>
          hash_file s' = Some (hash_store s') \<and>
          process_page (Suc 0) two_chunk_env fresh ''A'' (Some ''root'') = Inr s' \<and>
          (\<exists>es. trace (state_of (process_children (Suc 0) two_chunk_env fresh ''root''
                    [\<lparr>cp_title = ''A'', cp_page_id = ''A''\<rparr>,
                     \<lparr>cp_title = ''B'', cp_page_id = ''B''\<rparr>])) =
                 trace s' @ HttpGetPage ''B'' # es)"
    by blast
  from a b c f r l show ?thesis by (simp add: two_chunk_fields two_chunk_root)
qed



section \<open>Durable entries before child pages and siblings\<close>

text \<open>
  Claim C5. A page whose entries in the hash store and in the set of processed pages are
  updated is one that is not in the set of processed pages, is new or modified, and whose
  text has chunks. The visit of such a page ends with the writes of the hash file and of the
  file of processed pages, and up to these writes the only page requested is the page
  itself; after them both files hold the entries of the page. When the page has child pages,
  the page request for the first child is the event right after the two writes, and the
  entries are in the files whatever child pages are traversed afterwards. When the page is
  the child of another page and its traversal returns, the entries are still in the files
  and the page request for its next sibling comes after the two writes.
\<close>


theorem persisted_before_descending:
  assumes "visit_ok env pid"
    and "\<not> is_already_processed s pid"
    and "is_new_page s pid \<or> is_page_modified s pid (page_hash env pid)"
    and "page_chunks env pid \<noteq> []"
  shows "\<exists>s' es.
          visit_page env s pid parent_id = Inr (fetched_page env pid, s') \<and>
          events_since s s' = es @ [WriteHashStore, WriteProcessedPages] \<and>
          fetched_pages es = [pid] \<and>
          persisted s' pid (page_hash env pid) \<and>
          (child_pages (fetched_page env pid) = [] \<longrightarrow>
             process_page (Suc depth) env s pid parent_id = Inr s') \<and>
          (\<forall>c rest. child_pages (fetched_page env pid) = c # rest \<longrightarrow>
             (\<exists>later. trace (state_of (process_page (Suc (Suc depth)) env s pid parent_id)) =
                trace s @ es @ [WriteHashStore, WriteProcessedPages] @
                HttpGetPage (cp_page_id c) # later)) \<and>
          (\<forall>d cs. persisted (state_of (process_children d env s' pid cs)) pid (page_hash env pid)) \<and>
          (\<forall>par t sib rest s1.
             parent_id = Some par \<and> process_page (Suc depth) env s pid parent_id = Inr s1 \<longrightarrow>
             persisted s1 pid (page_hash env pid) \<and>
             (\<exists>mid later.
                trace (state_of (process_children (Suc depth) env s par
                         (\<lparr>cp_title = t, cp_page_id = pid\<rparr> # sib # rest))) =
                trace s @ es @ [WriteHashStore, WriteProcessedPages] @ mid @
                HttpGetPage (cp_page_id sib) # later))"
proof -
  let ?s' = "visited env s pid parent_id"
  let ?h = "page_hash env pid"
  let ?pre = "trace s @ fetch_events env pid"
  let ?es = "fetch_events env pid @ delete_events env ?pre pid @
             map (\<lambda>c. StoreAddTexts c pid (title_of env pid)) (page_chunks env pid) @
             replicate (length (filter Not (chunk_outcomes env (?pre @ delete_events env ?pre pid)
               pid (title_of env pid) (page_chunks env pid)))) (LogChunkError pid)"
  let ?w = "[WriteHashStore, WriteProcessedPages]"
  have e: "embeds env s pid" using assms(2-4) by (rule embedsI)
  have 1: "visit_page env s pid parent_id = Inr (fetched_page env pid, ?s')"
    using assms(1) by (rule visit_page_ok)
  have 2: "events_since s ?s' = ?es @ ?w"
    using e by (simp add: events_since_visited visit_events_def embed_events_def)
  have tr: "trace ?s' = trace s @ ?es @ ?w"
    using e by (simp add: visited_fields visit_events_def embed_events_def)
  have 3: "fetched_pages ?es = [pid]"
    by (simp add: fetched_pages_append fetched_pages_fetch_events fetched_pages_delete_events
        fetched_pages_adds fetched_pages_replicate_log)
  have 4: "persisted ?s' pid ?h"
    using e by (simp add: persisted_def visited_fields)
  have 5: "child_pages (fetched_page env pid) = [] \<longrightarrow>
      process_page (Suc depth) env s pid parent_id = Inr ?s'"
    using assms(1) by (simp add: visit_then_leaf del: process_page.simps)
  have 6: "\<forall>c rest. child_pages (fetched_page env pid) = c # rest \<longrightarrow>
      (\<exists>later. trace (state_of (process_page (Suc (Suc depth)) env s pid parent_id)) =
             trace s @ ?es @ ?w @ HttpGetPage (cp_page_id c) # later)"
  proof (intro allI impI)
    fix c rest assume "child_pages (fetched_page env pid) = c # rest"
    from visit_then_first_child [OF assms(1) this, of depth s parent_id]
    obtain later where "trace (state_of (process_page (Suc (Suc depth)) env s pid parent_id)) =
          trace ?s' @ HttpGetPage (cp_page_id c) # later" by blast
    then have "trace (state_of (process_page (Suc (Suc depth)) env s pid parent_id)) =
             trace s @ ?es @ ?w @ HttpGetPage (cp_page_id c) # later"
      unfolding tr by simp
    then show "\<exists>later. trace (state_of (process_page (Suc (Suc depth)) env s pid parent_id)) =
             trace s @ ?es @ ?w @ HttpGetPage (cp_page_id c) # later" by (rule exI)
  qed
  have 7: "\<forall>d cs. persisted (state_of (process_children d env ?s' pid cs)) pid ?h"
    using 4 by (simp add: persisted_traversal)
  have 8: "\<forall>par t sib rest s1.
             parent_id = Some par \<and> process_page (Suc depth) env s pid parent_id = Inr s1 \<longrightarrow>
             persisted s1 pid ?h \<and>
             (\<exists>mid later.
                trace (state_of (process_children (Suc depth) env s par
                         (\<lparr>cp_title = t, cp_page_id = pid\<rparr> # sib # rest))) =
                trace s @ ?es @ ?w @ mid @ HttpGetPage (cp_page_id sib) # later)"
  proof (intro allI impI)
    fix par t sib rest s1
    assume a: "parent_id = Some par \<and> process_page (Suc depth) env s pid parent_id = Inr s1"
    then have r: "process_page (Suc depth) env s pid parent_id = Inr s1" by blast
    from a have par: "parent_id = Some par" by blast
    have "process_children depth env ?s' pid (child_pages (fetched_page env pid)) = Inr s1"
      using assms(1) r by (simp add: process_page_Suc del: process_page.simps)
    then have "state_of (process_children depth env ?s' pid (child_pages (fetched_page env pid))) = s1"
      by (simp add: state_of_def)
    with 7 have p: "persisted s1 pid ?h" by metis
    from returned_trace [OF assms(1) r] obtain mid where m: "trace s1 = trace ?s' @ mid" by blast
    from r have "process_page (Suc depth) env s
                 (cp_page_id \<lparr>cp_title = t, cp_page_id = pid\<rparr>) (Some par) = Inr s1"
      unfolding par by (simp del: process_page.simps)
    from next_sibling_event [OF this, of sib rest]
    obtain later where "trace (state_of (process_children (Suc depth) env s par
                         (\<lparr>cp_title = t, cp_page_id = pid\<rparr> # sib # rest))) =
          trace s1 @ HttpGetPage (cp_page_id sib) # later" by blast
    then have "trace (state_of (process_children (Suc depth) env s par
                         (\<lparr>cp_title = t, cp_page_id = pid\<rparr> # sib # rest))) =
                trace s @ ?es @ ?w @ mid @ HttpGetPage (cp_page_id sib) # later"
      unfolding m tr by simp
    with p show "persisted s1 pid ?h \<and>
             (\<exists>mid later.
                trace (state_of (process_children (Suc depth) env s par
                         (\<lparr>cp_title = t, cp_page_id = pid\<rparr> # sib # rest))) =
                trace s @ ?es @ ?w @ mid @ HttpGetPage (cp_page_id sib) # later)"
      by blast
  qed
  from 1 2 3 4 5 6 7 8 show ?thesis by blast
qed


theorem persisted_before_descending_witness:
  "visit_ok family_env ''root'' \<and> visit_ok family_env ''A'' \<and>
   \<not> is_already_processed fresh ''root'' \<and> is_new_page fresh ''root'' \<and>
   \<not> is_already_processed fresh ''A'' \<and> is_new_page fresh ''A'' \<and>
   page_chunks family_env ''root'' \<noteq> [] \<and> page_chunks family_env ''A'' \<noteq> [] \<and>
   child_pages (fetched_page family_env ''root'') =
     [\<lparr>cp_title = ''A'', cp_page_id = ''A''\<rparr>, \<lparr>cp_title = ''B'', cp_page_id = ''B''\<rparr>] \<and>
   (\<exists>s' es.
      visit_page family_env fresh ''root'' None = Inr (fetched_page family_env ''root'', s') \<and>
      events_since fresh s' = es @ [WriteHashStore, WriteProcessedPages] \<and>
      fetched_pages es = [''root''] \<and>
      persisted s' ''root'' (page_hash family_env ''root'') \<and>
      (\<exists>later. trace (state_of (process_page (Suc (Suc 0)) family_env fresh ''root'' None)) =
         es @ [WriteHashStore, WriteProcessedPages] @ HttpGetPage ''A'' # later)) \<and>
   (\<exists>s' es.
      visit_page family_env fresh ''A'' (Some ''root'') = Inr (fetched_page family_env ''A'', s') \<and>
      events_since fresh s' = es @ [WriteHashStore, WriteProcessedPages] \<and>
      fetched_pages es = [''A''] \<and>
      persisted s' ''A'' ''alpha'' \<and>
      process_page (Suc 0) family_env fresh ''A'' (Some ''root'') = Inr s' \<and>
      (\<exists>mid later. trace (state_of (process_children (Suc 0) family_env fresh ''root''
                    [\<lparr>cp_title = ''A'', cp_page_id = ''A''\<rparr>,
                     \<lparr>cp_title = ''B'', cp_page_id = ''B''\<rparr>])) =
         es @ [WriteHashStore, WriteProcessedPages] @ mid @ HttpGetPage ''B'' # later))"
proof -
  have a: "visit_ok family_env ''root''" "visit_ok family_env ''A''"
    by (rule family_visit_ok)+
  have b: "\<not> is_already_processed fresh ''root''" "\<not> is_already_processed fresh ''A''"
    by (simp_all add: is_already_processed_def fresh_fields)
  have c: "is_new_page fresh ''root''" "is_new_page fresh ''A''"
    by (simp_all add: is_new_page_def fresh_fields)
  have d: "page_chunks family_env ''root'' \<noteq> []" "page_chunks family_env ''A'' \<noteq> []"
    by (simp_all add: family_chunks)
  have k: "child_pages (fetched_page family_env ''root'') =
     [\<lparr>cp_title = ''A'', cp_page_id = ''A''\<rparr>, \<lparr>cp_title = ''B'', cp_page_id = ''B''\<rparr>]"
    by (rule family_children)
  note R = persisted_before_descending [of family_env "''root''" fresh None 0,
      OF a(1) b(1) disjI1 [OF c(1)] d(1)]
  from R obtain s' es where
    r1: "visit_page family_env fresh ''root'' None = Inr (fetched_page family_env ''root'', s')"
    and r2: "events_since fresh s' = es @ [WriteHashStore, WriteProcessedPages]"
    and r3: "fetched_pages es = [''root'']"
    and r4: "persisted s' ''root'' (page_hash family_env ''root'')"
    and r5: "\<forall>c rest. child_pages (fetched_page family_env ''root'') = c # rest \<longrightarrow>
             (\<exists>later. trace (state_of (process_page (Suc (Suc 0)) family_env fresh ''root'' None)) =
                trace fresh @ es @ [WriteHashStore, WriteProcessedPages] @
                HttpGetPage (cp_page_id c) # later)"
    by blast
  from r5 [rule_format, OF k]
  have r6: "\<exists>later. trace (state_of (process_page (Suc (Suc 0)) family_env fresh ''root'' None)) =
         es @ [WriteHashStore, WriteProcessedPages] @ HttpGetPage ''A'' # later"
    by (simp add: fresh_fields del: process_page.simps)
  from r1 r2 r3 r4 r6 have r: "\<exists>s' es.
      visit_page family_env fresh ''root'' None = Inr (fetched_page family_env ''root'', s') \<and>
      events_since fresh s' = es @ [WriteHashStore, WriteProcessedPages] \<and>
      fetched_pages es = [''root''] \<and>
      persisted s' ''root'' (page_hash family_env ''root'') \<and>
      (\<exists>later. trace (state_of (process_page (Suc (Suc 0)) family_env fresh ''root'' None)) =
         es @ [WriteHashStore, WriteProcessedPages] @ HttpGetPage ''A'' # later)"
    by blast
  note A = persisted_before_descending [of family_env "''A''" fresh "Some ''root''" 0,
      OF a(2) b(2) disjI1 [OF c(2)] d(2)]
  from A obtain t' et where
    l1: "visit_page family_env fresh ''A'' (Some ''root'') = Inr (fetched_page family_env ''A'', t')"
    and l2: "events_since fresh t' = et @ [WriteHashStore, WriteProcessedPages]"
    and l3: "fetched_pages et = [''A'']"
    and l4: "persisted t' ''A'' (page_hash family_env ''A'')"
    and l5: "child_pages (fetched_page family_env ''A'') = [] \<longrightarrow>
             process_page (Suc 0) family_env fresh ''A'' (Some ''root'') = Inr t'"
    and l6: "\<forall>par t sib rest s1.
             Some ''root'' = Some par \<and>
             process_page (Suc 0) family_env fresh ''A'' (Some ''root'') = Inr s1 \<longrightarrow>
             persisted s1 ''A'' (page_hash family_env ''A'') \<and>
             (\<exists>mid later.
                trace (state_of (process_children (Suc 0) family_env fresh par
                         (\<lparr>cp_title = t, cp_page_id = ''A''\<rparr> # sib # rest))) =
                trace fresh @ et @ [WriteHashStore, WriteProcessedPages] @ mid @
                HttpGetPage (cp_page_id sib) # later)"
    by blast
  from l5 have l7: "process_page (Suc 0) family_env fresh ''A'' (Some ''root'') = Inr t'"
    by (simp add: family_children del: process_page.simps)
  from l4 have l8: "persisted t' ''A'' ''alpha''" by (simp add: family_hash)
  from l6 [rule_format, of "''root''" t' "''A''" "\<lparr>cp_title = ''B'', cp_page_id = ''B''\<rparr>" "[]"] l7
  have l9: "\<exists>mid later. trace (state_of (process_children (Suc 0) family_env fresh ''root''
                    [\<lparr>cp_title = ''A'', cp_page_id = ''A''\<rparr>,
                     \<lparr>cp_title = ''B'', cp_page_id = ''B''\<rparr>])) =
         et @ [WriteHashStore, WriteProcessedPages] @ mid @ HttpGetPage ''B'' # later"
    by (simp add: fresh_fields del: process_page.simps process_children.simps)
  from l1 l2 l3 l8 l7 l9 have l: "\<exists>s' es.
      visit_page family_env fresh ''A'' (Some ''root'') = Inr (fetched_page family_env ''A'', s') \<and>
      events_since fresh s' = es @ [WriteHashStore, WriteProcessedPages] \<and>
      fetched_pages es = [''A''] \<and>
      persisted s' ''A'' ''alpha'' \<and>
      process_page (Suc 0) family_env fresh ''A'' (Some ''root'') = Inr s' \<and>
      (\<exists>mid later. trace (state_of (process_children (Suc 0) family_env fresh ''root''
                    [\<lparr>cp_title = ''A'', cp_page_id = ''A''\<rparr>,
                     \<lparr>cp_title = ''B'', cp_page_id = ''B''\<rparr>])) =
         es @ [WriteHashStore, WriteProcessedPages] @ mid @ HttpGetPage ''B'' # later)"
    by blast
  from a b c d k r l show ?thesis by blast
qed


section \<open>A page without chunks\<close>





section \<open>Deleting before adding\<close>

text \<open>
  Claim C7. When a page is indexed (it is not in the set of processed pages, it is new or
  modified, and its text has chunks), the first call of the vector store is the deletion of
  the documents tagged with the page id, and the additions of all chunks follow it in order.
  A deletion that raises is logged right after the call and leaves the documents of the
  store as they were; the chunks are submitted all the same. A deletion that succeeds
  removes every document tagged with the id; what the visit adds afterwards are chunks of
  this page.
\<close>


theorem delete_before_adds:
  assumes "visit_ok env pid"
    and "\<not> is_already_processed s pid"
    and "is_new_page s pid \<or> is_page_modified s pid (page_hash env pid)"
    and "page_chunks env pid \<noteq> []"
  shows "\<exists>s' rest new.
          visit_page env s pid parent_id = Inr (fetched_page env pid, s') \<and>
          events_since s s' =
            fetch_events env pid @ [StoreDelete pid] @
            (if store_fails env (trace s @ fetch_events env pid) (StoreDelete pid)
             then [LogDeleteError pid] else []) @
            map (\<lambda>c. StoreAddTexts c pid (title_of env pid)) (page_chunks env pid) @ rest \<and>
          store_calls rest = [] \<and>
          vector_store s' =
            (if store_fails env (trace s @ fetch_events env pid) (StoreDelete pid)
             then vector_store s else filter (\<lambda>d. fst (snd d) \<noteq> pid) (vector_store s)) @ new \<and>
          set new \<subseteq> (\<lambda>c. (c, pid, title_of env pid)) ` set (page_chunks env pid)"
proof -
  let ?s' = "visited env s pid parent_id"
  let ?tr = "trace s @ fetch_events env pid"
  let ?cs = "page_chunks env pid"
  let ?rest = "replicate (length (filter Not (chunk_outcomes env (?tr @ delete_events env ?tr pid)
                 pid (title_of env pid) ?cs))) (LogChunkError pid)
               @ [WriteHashStore, WriteProcessedPages]"
  let ?new = "stored_chunks env (?tr @ delete_events env ?tr pid) pid (title_of env pid) ?cs"
  have e: "embeds env s pid" using assms(2-4) by (rule embedsI)
  have 1: "visit_page env s pid parent_id = Inr (fetched_page env pid, ?s')"
    using assms(1) by (rule visit_page_ok)
  have 2: "events_since s ?s' =
            fetch_events env pid @ [StoreDelete pid] @
            (if store_fails env ?tr (StoreDelete pid) then [LogDeleteError pid] else []) @
            map (\<lambda>c. StoreAddTexts c pid (title_of env pid)) ?cs @ ?rest"
    using e by (simp add: events_since_visited visit_events_def embed_events_def delete_events_def)
  have 3: "store_calls ?rest = []"
    by (simp add: store_calls_append store_calls_replicate_log store_calls_simps)
  have 4: "vector_store ?s' =
            (if store_fails env ?tr (StoreDelete pid)
             then vector_store s else filter (\<lambda>d. fst (snd d) \<noteq> pid) (vector_store s)) @ ?new"
    using e by (simp add: visited_fields embed_store_def)
  have 5: "set ?new \<subseteq> (\<lambda>c. (c, pid, title_of env pid)) ` set ?cs"
    by (rule set_stored_chunks)
  from 1 2 3 4 5 show ?thesis by blast
qed

theorem delete_before_adds_witness:
  "visit_ok no_delete_env ''A'' \<and> visit_ok family_env ''A'' \<and>
   \<not> is_already_processed (init [(''old'', ''A'', ''A''), (''beta'', ''B'', ''B'')] None None None) ''A'' \<and>
   is_new_page (init [(''old'', ''A'', ''A''), (''beta'', ''B'', ''B'')] None None None) ''A'' \<and>
   page_chunks no_delete_env ''A'' \<noteq> [] \<and> page_chunks family_env ''A'' \<noteq> [] \<and>
   (\<exists>s' rest new.
      visit_page no_delete_env (init [(''old'', ''A'', ''A''), (''beta'', ''B'', ''B'')] None None None)
          ''A'' (Some ''root'')
        = Inr (fetched_page no_delete_env ''A'', s') \<and>
      events_since (init [(''old'', ''A'', ''A''), (''beta'', ''B'', ''B'')] None None None) s' =
        [HttpGetPage ''A'', HttpGetBlocks ''A'', StoreDelete ''A'', LogDeleteError ''A'',
         StoreAddTexts ''alpha'' ''A'' ''A''] @ rest \<and>
      store_calls rest = [] \<and>
      vector_store s' = [(''old'', ''A'', ''A''), (''beta'', ''B'', ''B'')] @ new \<and>
      set new \<subseteq> {(''alpha'', ''A'', ''A'')}) \<and>
   (\<exists>s' rest new.
      visit_page family_env (init [(''old'', ''A'', ''A''), (''beta'', ''B'', ''B'')] None None None)
          ''A'' (Some ''root'')
        = Inr (fetched_page family_env ''A'', s') \<and>
      events_since (init [(''old'', ''A'', ''A''), (''beta'', ''B'', ''B'')] None None None) s' =
        [HttpGetPage ''A'', HttpGetBlocks ''A'', StoreDelete ''A'',
         StoreAddTexts ''alpha'' ''A'' ''A''] @ rest \<and>
      store_calls rest = [] \<and>
      vector_store s' = [(''beta'', ''B'', ''B'')] @ new \<and>
      set new \<subseteq> {(''alpha'', ''A'', ''A'')})"
proof -
  let ?s = "init [(''old'', ''A'', ''A''), (''beta'', ''B'', ''B'')] None None None"
  have a: "visit_ok no_delete_env ''A''" "visit_ok family_env ''A''"
    by (simp_all add: no_delete_fields family_visit_ok)
  have b: "\<not> is_already_processed ?s ''A''" by (simp add: is_already_processed_def init_def)
  have c: "is_new_page ?s ''A''" by (simp add: is_new_page_def init_def)
  have d: "page_chunks no_delete_env ''A'' \<noteq> []" "page_chunks family_env ''A'' \<noteq> []"
    by (simp_all add: no_delete_fields family_chunks)
  have v: "vector_store ?s = [(''old'', ''A'', ''A''), (''beta'', ''B'', ''B'')]"
    by (simp add: init_def)
  from delete_before_adds [of no_delete_env "''A''" ?s "Some ''root''"] a b c d
  have 1: "\<exists>s' rest new.
      visit_page no_delete_env ?s ''A'' (Some ''root'') = Inr (fetched_page no_delete_env ''A'', s') \<and>
      events_since ?s s' =
        [HttpGetPage ''A'', HttpGetBlocks ''A'', StoreDelete ''A'', LogDeleteError ''A'',
         StoreAddTexts ''alpha'' ''A'' ''A''] @ rest \<and>
      store_calls rest = [] \<and>
      vector_store s' = [(''old'', ''A'', ''A''), (''beta'', ''B'', ''B'')] @ new \<and>
      set new \<subseteq> {(''alpha'', ''A'', ''A'')}"
    by (simp add: no_delete_fields v)
  from delete_before_adds [of family_env "''A''" ?s "Some ''root''"] a b c d
  have 2: "\<exists>s' rest new.
      visit_page family_env ?s ''A'' (Some ''root'') = Inr (fetched_page family_env ''A'', s') \<and>
      events_since ?s s' =
        [HttpGetPage ''A'', HttpGetBlocks ''A'', StoreDelete ''A'',
         StoreAddTexts ''alpha'' ''A'' ''A''] @ rest \<and>
      store_calls rest = [] \<and>
      vector_store s' = [(''beta'', ''B'', ''B'')] @ new \<and>
      set new \<subseteq> {(''alpha'', ''A'', ''A'')}"
    by (simp add: family_chunks family_fetch_events family_title_of family_store_fails v)
  from a b c d 1 2 show ?thesis by simp
qed


section \<open>Nodes and edges that are added again\<close>

text \<open>
  Claim C8. Adding a node twice with the same title gives the graph of adding it once, and so
  does adding an edge twice. In a graph that holds no node id and no edge twice (as every
  \<^verbatim>\<open>DiGraph\<close> does, and the empty graph to begin with), the node added is there exactly once,
  the edge added is there exactly once with both end points exactly once, and the graph still
  holds nothing twice. A page that is visited a second time with the same parent is visited
  without an exception and leaves the graph as it was. When the traversal of a list of child
  references returns, however often an id occurs in the list, the graph holds exactly one node
  for every child in it and exactly one edge from the parent to that child (line 142 adds
  the edge when the parent id is not the empty string).
\<close>

theorem graph_updates_idempotent:
  "add_node n t (add_node n t g) = add_node n t g \<and>
   add_edge u v (add_edge u v g) = add_edge u v g \<and>
   (wf_graph g \<longrightarrow>
      wf_graph (add_node n t g) \<and> wf_graph (add_edge u v g) \<and>
      count_list (map fst (g_nodes (add_node n t g))) n = 1 \<and>
      count_list (g_edges (add_edge u v g)) (u, v) = 1 \<and>
      count_list (map fst (g_nodes (add_edge u v g))) u = 1 \<and>
      count_list (map fst (g_nodes (add_edge u v g))) v = 1) \<and>
   (\<forall>page s1. visit_page env s pid parent_id = Inr (page, s1) \<longrightarrow>
      (\<exists>s2. visit_page env s1 pid parent_id = Inr (page, s2) \<and>
            knowledge_graph s2 = knowledge_graph s1)) \<and>
   (\<forall>s1. wf_graph (knowledge_graph s) \<and> process_children depth env s q cs = Inr s1 \<longrightarrow>
      wf_graph (knowledge_graph s1) \<and>
      (\<forall>c \<in> set cs.
         count_list (map fst (g_nodes (knowledge_graph s1))) (cp_page_id c) = 1 \<and>
         (q \<noteq> '''' \<longrightarrow> count_list (g_edges (knowledge_graph s1)) (q, cp_page_id c) = 1)))"
proof -
  have 1: "add_node n t (add_node n t g) = add_node n t g" by (rule add_node_twice)
  have 2: "add_edge u v (add_edge u v g) = add_edge u v g" by (rule add_edge_twice)
  have 3: "wf_graph g \<longrightarrow>
      wf_graph (add_node n t g) \<and> wf_graph (add_edge u v g) \<and>
      count_list (map fst (g_nodes (add_node n t g))) n = 1 \<and>
      count_list (g_edges (add_edge u v g)) (u, v) = 1 \<and>
      count_list (map fst (g_nodes (add_edge u v g))) u = 1 \<and>
      count_list (map fst (g_nodes (add_edge u v g))) v = 1"
  proof
    assume w: "wf_graph g"
    then have a: "wf_graph (add_node n t g)" and b: "wf_graph (add_edge u v g)"
      by (simp_all add: add_node_fields add_edge_fields)
    from a have "count_list (map fst (g_nodes (add_node n t g))) n = 1"
      by (simp add: wf_graph_def count_list_distinct add_node_fields)
    moreover from b have "count_list (g_edges (add_edge u v g)) (u, v) = 1"
      by (simp add: wf_graph_def count_list_distinct add_edge_fields)
    moreover from b have "count_list (map fst (g_nodes (add_edge u v g))) u = 1"
      "count_list (map fst (g_nodes (add_edge u v g))) v = 1"
      by (simp_all add: wf_graph_def count_list_distinct add_edge_fields)
    ultimately show "wf_graph (add_node n t g) \<and> wf_graph (add_edge u v g) \<and>
      count_list (map fst (g_nodes (add_node n t g))) n = 1 \<and>
      count_list (g_edges (add_edge u v g)) (u, v) = 1 \<and>
      count_list (map fst (g_nodes (add_edge u v g))) u = 1 \<and>
      count_list (map fst (g_nodes (add_edge u v g))) v = 1"
      using a b by blast
  qed
  have 4: "\<forall>page s1. visit_page env s pid parent_id = Inr (page, s1) \<longrightarrow>
      (\<exists>s2. visit_page env s1 pid parent_id = Inr (page, s2) \<and>
            knowledge_graph s2 = knowledge_graph s1)"
  proof (intro allI impI)
    fix page s1
    assume v: "visit_page env s pid parent_id = Inr (page, s1)"
    with visit_page_cases [of env s pid parent_id]
    have ok: "visit_ok env pid" and p: "page = fetched_page env pid"
      and s1: "s1 = visited env s pid parent_id" by auto
    have "visit_page env s1 pid parent_id = Inr (page, visited env s1 pid parent_id)"
      unfolding p using ok by (rule visit_page_ok)
    moreover have "knowledge_graph (visited env s1 pid parent_id) = knowledge_graph s1"
      unfolding s1 by (simp add: visited_fields graph_after_twice)
    ultimately show "\<exists>s2. visit_page env s1 pid parent_id = Inr (page, s2) \<and>
            knowledge_graph s2 = knowledge_graph s1" by blast
  qed
  have 5: "\<forall>s1. wf_graph (knowledge_graph s) \<and> process_children depth env s q cs = Inr s1 \<longrightarrow>
      wf_graph (knowledge_graph s1) \<and>
      (\<forall>c \<in> set cs.
         count_list (map fst (g_nodes (knowledge_graph s1))) (cp_page_id c) = 1 \<and>
         (q \<noteq> '''' \<longrightarrow> count_list (g_edges (knowledge_graph s1)) (q, cp_page_id c) = 1))"
  proof (intro allI impI)
    fix s1
    assume a: "wf_graph (knowledge_graph s) \<and> process_children depth env s q cs = Inr s1"
    then have r: "process_children depth env s q cs = Inr s1" by blast
    from a graph_traversal(2) [of s depth env q cs]
    have w: "wf_graph (knowledge_graph s1)" by (simp add: state_of_def)
    have "\<forall>c \<in> set cs.
         count_list (map fst (g_nodes (knowledge_graph s1))) (cp_page_id c) = 1 \<and>
         (q \<noteq> '''' \<longrightarrow> count_list (g_edges (knowledge_graph s1)) (q, cp_page_id c) = 1)"
    proof
      fix c assume "c \<in> set cs"
      from observed_pair [OF r this] w
      show "count_list (map fst (g_nodes (knowledge_graph s1))) (cp_page_id c) = 1 \<and>
         (q \<noteq> '''' \<longrightarrow> count_list (g_edges (knowledge_graph s1)) (q, cp_page_id c) = 1)"
        by (simp add: wf_graph_def count_list_distinct)
    qed
    with w show "wf_graph (knowledge_graph s1) \<and>
      (\<forall>c \<in> set cs.
         count_list (map fst (g_nodes (knowledge_graph s1))) (cp_page_id c) = 1 \<and>
         (q \<noteq> '''' \<longrightarrow> count_list (g_edges (knowledge_graph s1)) (q, cp_page_id c) = 1))"
      by blast
  qed
  from 1 2 3 4 5 show ?thesis by blast
qed

theorem graph_updates_idempotent_witness:
  "wf_graph empty_graph \<and> wf_graph (knowledge_graph fresh) \<and>
   add_edge ''root'' ''A'' (add_edge ''root'' ''A'' empty_graph) = add_edge ''root'' ''A'' empty_graph \<and>
   count_list (g_edges (add_edge ''root'' ''A'' empty_graph)) (''root'', ''A'') = 1 \<and>
   count_list (map fst (g_nodes (add_node ''A'' ''A'' empty_graph))) ''A'' = 1 \<and>
   (\<exists>page s1 s2.
      visit_page family_env fresh ''A'' (Some ''root'') = Inr (page, s1) \<and>
      visit_page family_env s1 ''A'' (Some ''root'') = Inr (page, s2) \<and>
      knowledge_graph s2 = knowledge_graph s1) \<and>
   (\<exists>s1.
      process_children (Suc 0) family_env fresh ''root''
        [\<lparr>cp_title = ''A'', cp_page_id = ''A''\<rparr>, \<lparr>cp_title = ''A'', cp_page_id = ''A''\<rparr>] = Inr s1 \<and>
      knowledge_graph s1 =
        \<lparr>g_nodes = [(''A'', Some ''A''), (''root'', None)], g_edges = [(''root'', ''A'')]\<rparr> \<and>
      wf_graph (knowledge_graph s1) \<and>
      count_list (map fst (g_nodes (knowledge_graph s1))) ''A'' = 1 \<and>
      count_list (g_edges (knowledge_graph s1)) (''root'', ''A'') = 1)"
proof -
  let ?cs = "[\<lparr>cp_title = ''A'', cp_page_id = ''A''\<rparr>, \<lparr>cp_title = ''A'', cp_page_id = ''A''\<rparr>]"
  let ?s1 = "visited family_env (visited family_env fresh ''A'' (Some ''root'')) ''A'' (Some ''root'')"
  note T = graph_updates_idempotent [of "''A''" "''A''" empty_graph "''root''" "''A''"
      family_env fresh "''A''" "Some ''root''" "Suc 0" "''root''" ?cs]
  have w: "wf_graph empty_graph" "wf_graph (knowledge_graph fresh)"
    by (simp_all add: wf_graph_def empty_graph_def fresh_fields)
  have v: "visit_page family_env fresh ''A'' (Some ''root'') =
           Inr (fetched_page family_env ''A'', visited family_env fresh ''A'' (Some ''root''))"
    by (rule visit_page_ok [OF family_visit_ok])
  from T have a: "add_edge ''root'' ''A'' (add_edge ''root'' ''A'' empty_graph) =
      add_edge ''root'' ''A'' empty_graph" by blast
  from T w have b: "count_list (g_edges (add_edge ''root'' ''A'' empty_graph)) (''root'', ''A'') = 1"
    "count_list (map fst (g_nodes (add_node ''A'' ''A'' empty_graph))) ''A'' = 1" by blast+
  from T have "\<forall>page s1. visit_page family_env fresh ''A'' (Some ''root'') = Inr (page, s1) \<longrightarrow>
      (\<exists>s2. visit_page family_env s1 ''A'' (Some ''root'') = Inr (page, s2) \<and>
            knowledge_graph s2 = knowledge_graph s1)" by blast
  from this [rule_format, OF v] v
  have c: "\<exists>page s1 s2.
      visit_page family_env fresh ''A'' (Some ''root'') = Inr (page, s1) \<and>
      visit_page family_env s1 ''A'' (Some ''root'') = Inr (page, s2) \<and>
      knowledge_graph s2 = knowledge_graph s1" by blast
  have tw: "process_children (Suc 0) family_env fresh ''root'' ?cs = Inr ?s1"
    by (simp add: visit_then_leaf family_visit_ok family_children del: process_page.simps)
  have gr: "knowledge_graph ?s1 =
     \<lparr>g_nodes = [(''A'', Some ''A''), (''root'', None)], g_edges = [(''root'', ''A'')]\<rparr>"
    by (simp add: visited_fields graph_after_twice family_title_of fresh_fields)
       (simp add: graph_after_def add_edge_def add_node_def ensure_node_def empty_graph_def)
  from T have "\<forall>s1. wf_graph (knowledge_graph fresh) \<and>
        process_children (Suc 0) family_env fresh ''root'' ?cs = Inr s1 \<longrightarrow>
      wf_graph (knowledge_graph s1) \<and>
      (\<forall>c \<in> set ?cs.
         count_list (map fst (g_nodes (knowledge_graph s1))) (cp_page_id c) = 1 \<and>
         (''root'' \<noteq> '''' \<longrightarrow> count_list (g_edges (knowledge_graph s1)) (''root'', cp_page_id c) = 1))"
    by blast
  from this [rule_format, of ?s1] w(2) tw
  have "wf_graph (knowledge_graph ?s1) \<and>
      count_list (map fst (g_nodes (knowledge_graph ?s1))) ''A'' = 1 \<and>
      count_list (g_edges (knowledge_graph ?s1)) (''root'', ''A'') = 1"
    by (simp del: process_page.simps process_children.simps)
  with tw gr have d: "\<exists>s1.
      process_children (Suc 0) family_env fresh ''root'' ?cs = Inr s1 \<and>
      knowledge_graph s1 =
        \<lparr>g_nodes = [(''A'', Some ''A''), (''root'', None)], g_edges = [(''root'', ''A'')]\<rparr> \<and>
      wf_graph (knowledge_graph s1) \<and>
      count_list (map fst (g_nodes (knowledge_graph s1))) ''A'' = 1 \<and>
      count_list (g_edges (knowledge_graph s1)) (''root'', ''A'') = 1"
    by blast
  from w a b c d show ?thesis by blast
qed


section \<open>The text and the references of a child page\<close>

text \<open>
  Claim C10. Let both requests for a page be answered with status 200, and let the \<open>i\<close>-th
  block received be of type \<^verbatim>\<open>child_page\<close>, lie in the page fetched (its
  \<^verbatim>\<open>block["parent"]["page_id"]\<close> is the id requested, as the remote source reports it for the
  children of a page) and have another id than that page. Then the line of this block in the
  text of the page returned is the markdown link \<^verbatim>\<open>- [title](id of the page fetched)\<close>, and
  the entry of \<^verbatim>\<open>child_pages\<close> built from the same block holds the title and the id of the block
  itself (\<^verbatim>\<open>block['id']\<close>). So the id in the rendered text differs from the id of the entry,
  and the latter is the one the traversal uses: when it comes to this entry, its next
  request is the page request for the id of the block.
\<close>

theorem child_page_text_and_ref:
  assumes "pr_status_code (pages_endpoint env pid) = 200"
    and "br_status_code (blocks_endpoint env pid) = 200"
    and "i < length (br_results (blocks_endpoint env pid))"
    and "b_type (br_results (blocks_endpoint env pid) ! i) = ''child_page''"
    and "b_parent_page_id (br_results (blocks_endpoint env pid) ! i) = pid"
    and "b_id (br_results (blocks_endpoint env pid) ! i) \<noteq> pid"
  shows "\<exists>page s'.
          get_page_content env s pid = Inr (page, s') \<and> page_id page = pid \<and>
          block_lines (br_results (blocks_endpoint env pid)) ! i =
            ''- ['' @ b_child_title (br_results (blocks_endpoint env pid) ! i) @ ''](''
              @ page_id page @ '')'' \<and>
          (\<exists>u v. full_content page =
                   u @ (''- ['' @ b_child_title (br_results (blocks_endpoint env pid) ! i) @ ''](''
                         @ page_id page @ '')'') @ v) \<and>
          length (get_child_pages (take i (br_results (blocks_endpoint env pid))))
            < length (child_pages page) \<and>
          child_pages page ! length (get_child_pages (take i (br_results (blocks_endpoint env pid)))) =
            \<lparr>cp_title = b_child_title (br_results (blocks_endpoint env pid) ! i),
             cp_page_id = b_id (br_results (blocks_endpoint env pid) ! i)\<rparr> \<and>
          cp_page_id (child_pages page !
              length (get_child_pages (take i (br_results (blocks_endpoint env pid)))))
            \<noteq> page_id page \<and>
          (\<exists>es. trace (state_of (process_children (Suc depth) env s0 pid
                    (drop (length (get_child_pages (take i (br_results (blocks_endpoint env pid)))))
                       (child_pages page)))) =
                 trace s0 @ HttpGetPage (b_id (br_results (blocks_endpoint env pid) ! i)) # es)"
proof -
  let ?blocks = "br_results (blocks_endpoint env pid)"
  let ?b = "?blocks ! i"
  let ?page = "fetched_page env pid"
  let ?k = "length (get_child_pages (take i ?blocks))"
  let ?l = "''- ['' @ b_child_title ?b @ '']('' @ page_id ?page @ '')''"
  let ?ref = "\<lparr>cp_title = b_child_title ?b, cp_page_id = b_id ?b\<rparr>"
  have pb: "page_blocks env pid = ?blocks" using assms(2) by (simp add: page_blocks_def)
  have 1: "get_page_content env s pid =
           Inr (?page, s\<lparr>trace := trace s @ fetch_events env pid\<rparr>)"
    using assms(1) by (simp add: get_page_content_eq)
  have 2: "page_id ?page = pid" by (simp add: fetched_page_def)
  have 3: "block_lines ?blocks ! i = ?l"
    using assms(3,4,5) by (simp add: block_lines_nth block_line_child_page 2)
  have "block_lines ?blocks ! i \<in> set (block_lines ?blocks)"
    using assms(3) by (simp add: length_block_lines)
  then have "?l \<in> set (block_lines ?blocks)" using 3 by simp
  then have "\<exists>u v. process_blocks ?blocks = u @ ?l @ v"
    unfolding process_blocks_def by (rule join_contains)
  then have 4: "\<exists>u v. full_content ?page = u @ ?l @ v"
    by (simp add: fetched_page_def pb)
  have cp: "child_pages ?page =
      get_child_pages (take i ?blocks) @ ?ref # get_child_pages (drop (Suc i) ?blocks)"
    using child_page_ref [OF assms(3,4)] by (simp add: fetched_page_def pb)
  have 5: "?k < length (child_pages ?page)" by (simp add: cp)
  have 6: "child_pages ?page ! ?k = ?ref" by (simp add: cp nth_append)
  have 7: "cp_page_id (child_pages ?page ! ?k) \<noteq> page_id ?page"
    using assms(6) by (simp add: 6 2)
  have "drop ?k (child_pages ?page) = ?ref # get_child_pages (drop (Suc i) ?blocks)"
    by (simp add: cp)
  then have 8: "\<exists>es. trace (state_of (process_children (Suc depth) env s0 pid
                    (drop ?k (child_pages ?page)))) = trace s0 @ HttpGetPage (b_id ?b) # es"
    using process_children_first_event [of depth env s0 pid ?ref]
    by (simp del: process_page.simps process_children.simps)
  from 1 2 3 4 5 6 7 8 show ?thesis by blast
qed

theorem child_page_text_and_ref_witness:
  "br_results (blocks_endpoint family_env ''root'') =
     [child_block ''A'' ''root'' ''A'', child_block ''B'' ''root'' ''B''] \<and>
   (\<exists>page s'.
      get_page_content family_env fresh ''root'' = Inr (page, s') \<and> page_id page = ''root'' \<and>
      (\<exists>u v. full_content page = u @ ''- [B](root)'' @ v) \<and>
      child_pages page ! 1 = \<lparr>cp_title = ''B'', cp_page_id = ''B''\<rparr> \<and>
      cp_page_id (child_pages page ! 1) \<noteq> page_id page \<and>
      (\<exists>es. trace (state_of (process_children (Suc 0) family_env fresh ''root''
                (drop 1 (child_pages page)))) = HttpGetPage ''B'' # es))"
proof -
  have b: "br_results (blocks_endpoint family_env ''root'') =
     [child_block ''A'' ''root'' ''A'', child_block ''B'' ''root'' ''B'']"
    by (simp add: family_endpoints family_blocks_def)
  have e: "b_child_title (br_results (blocks_endpoint family_env ''root'') ! 1) = ''B''"
    "b_id (br_results (blocks_endpoint family_env ''root'') ! 1) = ''B''"
    "b_type (br_results (blocks_endpoint family_env ''root'') ! 1) = ''child_page''"
    "b_parent_page_id (br_results (blocks_endpoint family_env ''root'') ! 1) = ''root''"
    "length (get_child_pages (take 1 (br_results (blocks_endpoint family_env ''root'')))) = 1"
    "1 < length (br_results (blocks_endpoint family_env ''root''))"
    by (simp_all add: b child_block_def)
  have "b_id (br_results (blocks_endpoint family_env ''root'') ! 1) \<noteq> ''root''"
    using e(2) by simp
  from child_page_text_and_ref [OF family_endpoints(1) family_endpoints(2) e(6) e(3) e(4) this,
      of fresh 0 fresh, unfolded e]
  obtain page s' u v es where
    1: "get_page_content family_env fresh ''root'' = Inr (page, s')"
    and 2: "page_id page = ''root''"
    and 3: "full_content page = u @ (''- ['' @ ''B'' @ '']('' @ page_id page @ '')'') @ v"
    and 4: "child_pages page ! 1 = \<lparr>cp_title = ''B'', cp_page_id = ''B''\<rparr>"
    and 5: "cp_page_id (child_pages page ! 1) \<noteq> page_id page"
    and 6: "trace (state_of (process_children (Suc 0) family_env fresh ''root''
                (drop 1 (child_pages page)))) = trace fresh @ HttpGetPage ''B'' # es"
    by blast
  from 3 2 have 7: "full_content page = u @ ''- [B](root)'' @ v" by simp
  from 6 have 8: "trace (state_of (process_children (Suc 0) family_env fresh ''root''
                (drop 1 (child_pages page)))) = HttpGetPage ''B'' # es"
    by (simp add: fresh_fields del: process_page.simps process_children.simps)
  from b 1 2 7 4 5 8 show ?thesis by blast
qed

end
